theory Spec2Isabelle
  imports Main "HOL-Library.Word" "HOL-Library.Log_Nat"
begin

unbundle bit_operations_syntax

section \<open>Bytes, numbers and errors\<close>

text \<open>
  A \<^verbatim>\<open>Buffer\<close> is a \<^verbatim>\<open>Uint8Array\<close>: a list of bytes. The numbers the parser
  handles are offsets, sizes and header fields: non-negative integers held in
  JavaScript's double-precision \<^verbatim>\<open>number\<close>, modelled as \<open>nat\<close> with the rounding of
  a double written out where the code can leave the exact range (\<open>2 ^ 53\<close>).
\<close>

type_synonym byte = "8 word"

text \<open>
  Every \<^verbatim>\<open>throw\<close> of the module, and every exception of the platform calls it makes,
  is one constructor:
  \<^item> \<open>InvalidMagic\<close>: \<^verbatim>\<open>new Error('File format error: invalid magic number')\<close>;
  \<^item> \<open>UnsupportedVersion v\<close>: \<^verbatim>\<open>new Error(`Unsupported version: ${version}`)\<close>;
  \<^item> \<open>RangeError\<close>: the \<^verbatim>\<open>RangeError\<close> of a Buffer read beyond the buffer;
  \<^item> \<open>ColorFrameFailed\<close>: \<^verbatim>\<open>new Error('Failed to decode color frame')\<close>;
  \<^item> \<open>NoCanvasContext\<close>: \<^verbatim>\<open>new Error('Failed to get canvas context')\<close>;
  \<^item> \<open>NoAlphaCanvasContext\<close>: \<^verbatim>\<open>new Error('Failed to get alpha canvas context')\<close>;
  \<^item> \<open>IndexSizeError\<close>: the \<^verbatim>\<open>DOMException\<close> of \<^verbatim>\<open>getImageData\<close> on an empty rectangle;
  \<^item> \<open>VideoDecoderError m\<close>: the rejection of \<^verbatim>\<open>decodeAV1Frame\<close>'s promise by the
    decoder (\<^verbatim>\<open>VideoDecoder error: ...\<close>, or a failed \<^verbatim>\<open>flush\<close>);
  \<^item> \<open>EncodeError m\<close>: a rejection of \<^verbatim>\<open>convertToBlob\<close>.
\<close>

datatype error =
    InvalidMagic
  | UnsupportedVersion nat
  | RangeError
  | ColorFrameFailed
  | NoCanvasContext
  | NoAlphaCanvasContext
  | IndexSizeError
  | VideoDecoderError string
  | EncodeError string

subsection \<open>JavaScript numbers\<close>

text \<open>
  \<open>round_double n\<close> is the double nearest to the natural number \<open>n\<close> (round to
  nearest, ties to even, 53 bits of significand): exact below \<open>2 ^ 53\<close>.
  \<^verbatim>\<open>Number(b)\<close> of a BigInt \<open>b\<close> is that rounding, and so is the sum \<^verbatim>\<open>a + b\<close> of two
  integer-valued numbers. \<^verbatim>\<open>x >>> 0\<close> is \<open>ToUint32\<close>.
\<close>

definition round_double :: "nat \<Rightarrow> nat" where
  "round_double n =
     (if n < 2 ^ 53 then n
      else
        (let e = floorlog 2 n - 53; q = n div 2 ^ e; r = n mod 2 ^ e
         in if 2 * r < 2 ^ e \<or> (2 * r = 2 ^ e \<and> even q) then q * 2 ^ e else (q + 1) * 2 ^ e))"

definition Number :: "nat \<Rightarrow> nat" where
  "Number b = round_double b"

definition number_plus :: "nat \<Rightarrow> nat \<Rightarrow> nat" where
  "number_plus a b = round_double (a + b)"

definition ToUint32 :: "nat \<Rightarrow> nat" where
  "ToUint32 x = x mod 2 ^ 32"

subsection \<open>The Buffer methods\<close>

text \<open>
  The module imports \<^verbatim>\<open>Buffer\<close> from the package \<^verbatim>\<open>buffer\<close> (Node's Buffer for the
  browser). The four methods the parser calls:
  \<^item> \<^verbatim>\<open>subarray(start, fin)\<close> is \<^verbatim>\<open>Uint8Array.prototype.subarray\<close>: both indices are
    clamped to the length, and an empty range gives an empty view; it never throws.
  \<^item> \<^verbatim>\<open>toString('ascii')\<close> maps each byte \<^verbatim>\<open>b\<close> to \<^verbatim>\<open>String.fromCharCode(b & 0x7F)\<close>.
    A JavaScript string is its list of code units, and \<open>js_literal\<close> gives the code
    units of a string literal of the source.
  \<^item> \<^verbatim>\<open>readUInt32BE(offset)\<close> does \<^verbatim>\<open>offset = offset >>> 0\<close>, throws a \<^verbatim>\<open>RangeError\<close>
    when \<^verbatim>\<open>offset + 4 > this.length\<close>, and returns
    \<^verbatim>\<open>this[offset] * 0x1000000 + ((this[offset + 1] << 16) | (this[offset + 2] << 8) | this[offset + 3])\<close>.
  \<^item> \<^verbatim>\<open>readBigUInt64BE(offset)\<close> does \<^verbatim>\<open>offset = offset >>> 0\<close>, throws a \<^verbatim>\<open>RangeError\<close>
    when \<^verbatim>\<open>this[offset]\<close> or \<^verbatim>\<open>this[offset + 7]\<close> is undefined, and returns
    \<^verbatim>\<open>(BigInt(hi) << 32n) + BigInt(lo)\<close> for the two big-endian 32-bit halves.
\<close>

type_synonym js_string = "nat list"

definition js_literal :: "string \<Rightarrow> js_string" where
  "js_literal s = map of_char s"

definition subarray :: "byte list \<Rightarrow> nat \<Rightarrow> nat \<Rightarrow> byte list" where
  "subarray buf start fin =
     (let len = length buf; b = min start len; e = min fin len
      in take (e - b) (drop b buf))"

definition toString_ascii :: "byte list \<Rightarrow> js_string" where
  "toString_ascii buf = map (\<lambda>b. unat (b AND 0x7F)) buf"

definition readUInt32BE :: "byte list \<Rightarrow> nat \<Rightarrow> error + nat" where
  "readUInt32BE buf offset =
     (let off = ToUint32 offset
      in if off + 4 > length buf then Inl RangeError
         else Inr (unat (buf ! off) * 0x1000000 +
                   (push_bit 16 (unat (buf ! (off + 1))) OR
                    push_bit 8 (unat (buf ! (off + 2))) OR
                    unat (buf ! (off + 3)))))"

definition readBigUInt64BE :: "byte list \<Rightarrow> nat \<Rightarrow> error + nat" where
  "readBigUInt64BE buf offset =
     (let off = ToUint32 offset
      in if length buf \<le> off \<or> length buf \<le> off + 7 then Inl RangeError
         else
           (let hi = unat (buf ! off) * 2 ^ 24 + unat (buf ! (off + 1)) * 2 ^ 16 +
                     unat (buf ! (off + 2)) * 2 ^ 8 + unat (buf ! (off + 3));
                lo = unat (buf ! (off + 4)) * 2 ^ 24 + unat (buf ! (off + 5)) * 2 ^ 16 +
                     unat (buf ! (off + 6)) * 2 ^ 8 + unat (buf ! (off + 7))
            in Inr (push_bit 32 hi + lo)))"

section \<open>The container parser\<close>

record MilimgHeader =
  version :: nat
  width :: nat
  height :: nat
  colorPayload :: "byte list"
  alphaPayload :: "byte list option"

text \<open>
  \<^verbatim>\<open>parseMilimgContainer\<close>, statement by statement. The cursor \<^verbatim>\<open>offset\<close> is 8, 12, 16,
  20 and 28 after the fixed fields; from there on it is a sum with a size read from the
  buffer, hence \<open>number_plus\<close>. \<^verbatim>\<open>alphaPayload\<close> stays \<^verbatim>\<open>undefined\<close> (\<open>None\<close>) unless
  the version is 1.
\<close>

definition parseMilimgContainer :: "byte list \<Rightarrow> error + MilimgHeader" where
  "parseMilimgContainer buffer =
     (let magic = toString_ascii (subarray buffer 0 8)
      in if magic \<noteq> js_literal ''Milimg00'' then Inl InvalidMagic
         else
           (case readUInt32BE buffer 8 of
              Inl e \<Rightarrow> Inl e
            | Inr ver \<Rightarrow>
                if ver \<noteq> 0 \<and> ver \<noteq> 1 then Inl (UnsupportedVersion ver)
                else
                  (case readUInt32BE buffer 12 of
                     Inl e \<Rightarrow> Inl e
                   | Inr wd \<Rightarrow>
                       (case readUInt32BE buffer 16 of
                          Inl e \<Rightarrow> Inl e
                        | Inr ht \<Rightarrow>
                            (case readBigUInt64BE buffer 20 of
                               Inl e \<Rightarrow> Inl e
                             | Inr csize \<Rightarrow>
                                 (let colorPayloadSize = Number csize;
                                      color = subarray buffer 28 (number_plus 28 colorPayloadSize);
                                      offset = number_plus 28 colorPayloadSize
                                  in if ver = 1
                                     then
                                       (case readBigUInt64BE buffer offset of
                                          Inl e \<Rightarrow> Inl e
                                        | Inr asize \<Rightarrow>
                                            (let alphaPayloadSize = Number asize;
                                                 offset' = number_plus offset 8
                                             in Inr \<lparr>version = ver, width = wd, height = ht,
                                                      colorPayload = color,
                                                      alphaPayload =
                                                        Some (subarray buffer offset'
                                                          (number_plus offset' alphaPayloadSize))\<rparr>))
                                     else Inr \<lparr>version = ver, width = wd, height = ht,
                                               colorPayload = color, alphaPayload = None\<rparr>))))))"

section \<open>Frames, canvases and the alpha compositor\<close>

text \<open>
  A \<^verbatim>\<open>VideoFrame\<close> is its display size and its pixels: \<open>rgba\<close> holds four bytes
  (red, green, blue, alpha) per pixel, row by row, with colour not premultiplied, the
  way \<^verbatim>\<open>ImageData\<close> presents pixels.

  A 2D canvas keeps its pixels premultiplied: red, green and blue are stored scaled by
  the alpha, and scaled back when they are read. The two conversions round, and how
  they round is the browser's: they are a parameter. \<open>premultiply st a c\<close> is what is
  stored for a colour value \<open>c\<close> of a pixel of alpha \<open>a\<close>, \<open>unpremultiply st a s\<close>
  what a stored value \<open>s\<close> of such a pixel is read back as. The alpha itself is kept
  as it is.
\<close>

record VideoFrame =
  displayWidth :: nat
  displayHeight :: nat
  rgba :: "byte list"

record pixel_store =
  premultiply :: "byte \<Rightarrow> byte \<Rightarrow> byte"
  unpremultiply :: "byte \<Rightarrow> byte \<Rightarrow> byte"

record canvas =
  canvasWidth :: nat
  canvasHeight :: nat
  bitmap :: "byte list"

text \<open>
  \<open>to_store\<close> takes \<^verbatim>\<open>ImageData\<close> bytes to the bytes the canvas keeps, \<open>from_store\<close>
  takes them back: byte \<open>i\<close> belongs to the pixel whose alpha is byte \<open>4 * (i div 4) + 3\<close>.
\<close>

definition to_store :: "pixel_store \<Rightarrow> byte list \<Rightarrow> byte list" where
  "to_store st data =
     map (\<lambda>i. if i mod 4 = 3 then data ! i
               else premultiply st (data ! (4 * (i div 4) + 3)) (data ! i))
         [0..<length data]"

definition from_store :: "pixel_store \<Rightarrow> byte list \<Rightarrow> byte list" where
  "from_store st bm =
     map (\<lambda>i. if i mod 4 = 3 then bm ! i
               else unpremultiply st (bm ! (4 * (i div 4) + 3)) (bm ! i))
         [0..<length bm]"

text \<open>
  The canvas calls of the module:
  \<^item> \<^verbatim>\<open>new OffscreenCanvas(w, h)\<close> is a canvas of transparent black;
  \<^item> \<^verbatim>\<open>ctx.drawImage(frame, 0, 0)\<close> draws the frame unscaled with its top-left corner at
    the origin, clipped to the canvas. The module only draws on a canvas it has just
    made, where drawing a pixel stores it, premultiplied; pixels outside the frame
    keep their value;
  \<^item> \<^verbatim>\<open>ctx.getImageData(0, 0, width, height)\<close> with the canvas's own size reads the
    whole bitmap back, and throws \<^verbatim>\<open>IndexSizeError\<close> when a side is zero;
  \<^item> \<^verbatim>\<open>ctx.putImageData(imageData, 0, 0)\<close> stores the whole \<^verbatim>\<open>ImageData\<close>;
  \<^item> \<^verbatim>\<open>new VideoFrame(canvas, ...)\<close> is a frame of the canvas's size, with the pixels
    read back from the canvas.
\<close>

definition OffscreenCanvas :: "nat \<Rightarrow> nat \<Rightarrow> canvas" where
  "OffscreenCanvas w h = \<lparr>canvasWidth = w, canvasHeight = h, bitmap = replicate (4 * w * h) 0\<rparr>"

definition drawImage :: "pixel_store \<Rightarrow> canvas \<Rightarrow> VideoFrame \<Rightarrow> canvas" where
  "drawImage st cv frame =
     cv\<lparr>bitmap :=
       map (\<lambda>i. let p = i div 4; x = p mod canvasWidth cv; y = p div canvasWidth cv
                 in if x < displayWidth frame \<and> y < displayHeight frame
                    then
                      (let s = 4 * (y * displayWidth frame + x)
                       in if i mod 4 = 3 then rgba frame ! (s + 3)
                          else premultiply st (rgba frame ! (s + 3)) (rgba frame ! (s + i mod 4)))
                    else bitmap cv ! i)
           [0..<length (bitmap cv)]\<rparr>"

definition getImageData :: "pixel_store \<Rightarrow> canvas \<Rightarrow> error + byte list" where
  "getImageData st cv =
     (if canvasWidth cv = 0 \<or> canvasHeight cv = 0 then Inl IndexSizeError
      else Inr (from_store st (bitmap cv)))"

definition putImageData :: "pixel_store \<Rightarrow> canvas \<Rightarrow> byte list \<Rightarrow> canvas" where
  "putImageData st cv imageData = cv\<lparr>bitmap := to_store st imageData\<rparr>"

definition VideoFrame_of_canvas :: "pixel_store \<Rightarrow> canvas \<Rightarrow> VideoFrame" where
  "VideoFrame_of_canvas st cv =
     \<lparr>displayWidth = canvasWidth cv, displayHeight = canvasHeight cv,
      rgba = from_store st (bitmap cv)\<rparr>"

text \<open>
  The loop of \<^verbatim>\<open>combineRGBAFrames\<close>:
  \<^verbatim>\<open>for (let i = 0; i < data.length; i += 4) { data[i + 3] = alphaData[i] }\<close>.
  A read beyond a typed array is \<^verbatim>\<open>undefined\<close>, stored in a \<^verbatim>\<open>Uint8ClampedArray\<close> as 0;
  a write beyond it is ignored, as \<open>list_update\<close> does.
\<close>

function apply_alpha :: "nat \<Rightarrow> byte list \<Rightarrow> byte list \<Rightarrow> byte list" where
  "apply_alpha i data alphaData =
     (if i < length data
      then apply_alpha (i + 4)
             (data[i + 3 := (if i < length alphaData then alphaData ! i else 0)]) alphaData
      else data)"
  by pat_completeness auto
termination
  by (relation "measure (\<lambda>(i, data, alphaData). length data - i)") auto

declare apply_alpha.simps [simp del]

text \<open>
  \<^verbatim>\<open>combineRGBAFrames(colorFrame, alphaFrame)\<close>, on a browser whose canvases keep pixels
  as \<open>st\<close> says. The two booleans say whether \<^verbatim>\<open>canvas.getContext('2d')\<close> and
  \<^verbatim>\<open>alphaCanvas.getContext('2d')\<close> gave a context.
\<close>

definition combineRGBAFrames ::
  "pixel_store \<Rightarrow> bool \<Rightarrow> bool \<Rightarrow> VideoFrame \<Rightarrow> VideoFrame \<Rightarrow> error + VideoFrame" where
  "combineRGBAFrames st ctx alphaCtx colorFrame alphaFrame =
     (let w = displayWidth colorFrame;
          h = displayHeight colorFrame;
          cv = OffscreenCanvas w h
      in if \<not> ctx then Inl NoCanvasContext
         else
           (let cv' = drawImage st cv colorFrame
            in case getImageData st cv' of
                 Inl e \<Rightarrow> Inl e
               | Inr data \<Rightarrow>
                   (let alphaCanvas = OffscreenCanvas w h
                    in if \<not> alphaCtx then Inl NoAlphaCanvasContext
                       else
                         (case getImageData st (drawImage st alphaCanvas alphaFrame) of
                            Inl e \<Rightarrow> Inl e
                          | Inr alphaData \<Rightarrow>
                              Inr (VideoFrame_of_canvas st
                                     (putImageData st cv' (apply_alpha 0 data alphaData)))))))"

section \<open>The decode pipeline\<close>

text \<open>
  What the browser provides is a parameter of the pipeline:
  \<^item> \<open>videoDecoder\<close>: the outcome of configuring a \<^verbatim>\<open>VideoDecoder\<close>, decoding the payload
    as one key chunk and flushing: a rejection, or the last frame the decoder put out
    (\<open>None\<close> when it put out none);
  \<^item> \<open>canvasContext\<close>, \<open>alphaCanvasContext\<close>, \<open>pngCanvasContext\<close>: whether
    \<^verbatim>\<open>getContext('2d')\<close> gives a context for the two canvases of \<^verbatim>\<open>combineRGBAFrames\<close> and
    for the canvas of \<^verbatim>\<open>frameToPNG\<close>;
  \<^item> \<open>convertToBlob\<close>: the PNG bytes of a canvas, or a rejection;
  \<^item> \<open>pixelStore\<close>: how its canvases keep pixels.
\<close>

record platform =
  videoDecoder :: "byte list \<Rightarrow> error + VideoFrame option"
  pixelStore :: pixel_store
  canvasContext :: bool
  alphaCanvasContext :: bool
  pngCanvasContext :: bool
  convertToBlob :: "canvas \<Rightarrow> error + byte list"

definition decodeAV1Frame :: "platform \<Rightarrow> byte list \<Rightarrow> error + VideoFrame option" where
  "decodeAV1Frame pf payload =
     (if length payload = 0 then Inr None else videoDecoder pf payload)"

definition frameToPNG :: "platform \<Rightarrow> VideoFrame \<Rightarrow> error + byte list" where
  "frameToPNG pf frame =
     (let cv = OffscreenCanvas (displayWidth frame) (displayHeight frame)
      in if \<not> pngCanvasContext pf then Inl NoCanvasContext
         else convertToBlob pf (drawImage (pixelStore pf) cv frame))"

text \<open>
  \<^verbatim>\<open>decodeMilimg\<close>. \<^verbatim>\<open>header.alphaPayload\<close> is a \<^verbatim>\<open>Uint8Array\<close> or \<^verbatim>\<open>undefined\<close>: as a
  condition it is true exactly when it is there, also when it is empty. The \<^verbatim>\<open>close()\<close>
  calls release frames and change no result.
\<close>

definition decodeMilimg :: "platform \<Rightarrow> byte list \<Rightarrow> error + byte list" where
  "decodeMilimg pf buffer =
     (case parseMilimgContainer buffer of
        Inl e \<Rightarrow> Inl e
      | Inr header \<Rightarrow>
          (case decodeAV1Frame pf (colorPayload header) of
             Inl e \<Rightarrow> Inl e
           | Inr None \<Rightarrow> Inl ColorFrameFailed
           | Inr (Some colorFrame) \<Rightarrow>
               (case
                  (if version header = 1
                   then
                     (case alphaPayload header of
                        None \<Rightarrow> Inr colorFrame
                      | Some alpha \<Rightarrow>
                          (case decodeAV1Frame pf alpha of
                             Inl e \<Rightarrow> Inl e
                           | Inr None \<Rightarrow> Inr colorFrame
                           | Inr (Some alphaFrame) \<Rightarrow>
                               combineRGBAFrames (pixelStore pf) (canvasContext pf)
                                 (alphaCanvasContext pf) colorFrame alphaFrame))
                   else Inr colorFrame)
                of
                  Inl e \<Rightarrow> Inl e
                | Inr finalFrame \<Rightarrow> frameToPNG pf finalFrame)))"

section \<open>The byte layout of the format\<close>

text \<open>
  The layout table of the format, independent of the parser: \<open>field buf off n\<close> is the
  \<open>n\<close> bytes of \<open>buf\<close> from offset \<open>off\<close> (fewer when the buffer ends before),
  \<open>big_endian\<close> the unsigned number a byte string denotes, most significant byte first;
  \<open>u32_at\<close> and \<open>u64_at\<close> are the big-endian integers of 4 and 8 bytes at an offset.
  \<open>declared_end\<close> is the offset just past the last payload the size fields declare.
\<close>

definition field :: "byte list \<Rightarrow> nat \<Rightarrow> nat \<Rightarrow> byte list" where
  "field buf off n = take n (drop off buf)"

definition big_endian :: "byte list \<Rightarrow> nat" where
  "big_endian bs = foldl (\<lambda>acc b. acc * 256 + unat b) 0 bs"

definition u32_at :: "byte list \<Rightarrow> nat \<Rightarrow> nat" where
  "u32_at buf off = big_endian (field buf off 4)"

definition u64_at :: "byte list \<Rightarrow> nat \<Rightarrow> nat" where
  "u64_at buf off = big_endian (field buf off 8)"

definition magic_bytes :: "byte list" where
  "magic_bytes = [0x4D, 0x69, 0x6C, 0x69, 0x6D, 0x67, 0x30, 0x30]"

definition declared_end :: "byte list \<Rightarrow> nat" where
  "declared_end buf =
     (if u32_at buf 8 = 1 then 36 + u64_at buf 20 + u64_at buf (28 + u64_at buf 20)
      else 28 + u64_at buf 20)"

text \<open>The test of the parser's first \<^verbatim>\<open>if\<close>, by name.\<close>

definition passes_magic :: "byte list \<Rightarrow> bool" where
  "passes_magic buf \<longleftrightarrow> toString_ascii (subarray buf 0 8) = js_literal ''Milimg00''"

text \<open>
  Planes: a frame is well formed when both sides are positive and it holds four bytes
  per pixel, as every frame a decoder or a canvas gives is. \<open>pixel f x y k\<close> is channel
  \<open>k\<close> (0 red, 1 green, 2 blue, 3 alpha) of the pixel in column \<open>x\<close> of row \<open>y\<close>.
\<close>

definition wf_frame :: "VideoFrame \<Rightarrow> bool" where
  "wf_frame f \<longleftrightarrow>
     0 < displayWidth f \<and> 0 < displayHeight f \<and>
     length (rgba f) = 4 * displayWidth f * displayHeight f"

definition pixel :: "VideoFrame \<Rightarrow> nat \<Rightarrow> nat \<Rightarrow> nat \<Rightarrow> byte" where
  "pixel f x y k = rgba f ! (4 * (y * displayWidth f + x) + k)"

text \<open>
  \<open>read_back st a c\<close> is what the colour value \<open>c\<close> of a pixel of alpha \<open>a\<close> comes
  back as from a canvas. Whatever the rounding, a canvas keeps an opaque pixel exactly
  and reads a pixel of alpha 0 back as transparent black: \<open>sound_store\<close>.
\<close>

definition read_back :: "pixel_store \<Rightarrow> byte \<Rightarrow> byte \<Rightarrow> byte" where
  "read_back st a c = unpremultiply st a (premultiply st a c)"

definition sound_store :: "pixel_store \<Rightarrow> bool" where
  "sound_store st \<longleftrightarrow>
     (\<forall>c. unpremultiply st 255 (premultiply st 255 c) = c) \<and> (\<forall>s. unpremultiply st 0 s = 0)"

text \<open>
  A platform to run the pipeline on. Its canvases round to the nearest: \<open>c * a / 255\<close>
  when storing, \<open>s * 255 / a\<close> when reading. Its decoder gives a one-pixel frame for
  the payload \<open>[1]\<close> and no frame for any other, every canvas gets a context, and the
  encoder gives the bytes the canvas keeps.
\<close>

definition round_premultiply :: "byte \<Rightarrow> byte \<Rightarrow> byte" where
  "round_premultiply a c = of_nat ((unat c * unat a + 127) div 255)"

definition round_unpremultiply :: "byte \<Rightarrow> byte \<Rightarrow> byte" where
  "round_unpremultiply a s =
     (if a = 0 then 0 else of_nat (min 255 ((unat s * 255 + unat a div 2) div unat a)))"

definition sample_store :: pixel_store where
  "sample_store = \<lparr>premultiply = round_premultiply, unpremultiply = round_unpremultiply\<rparr>"

definition sample_decoder :: "byte list \<Rightarrow> error + VideoFrame option" where
  "sample_decoder payload =
     (if payload = [1]
      then Inr (Some \<lparr>displayWidth = 1, displayHeight = 1, rgba = [10, 20, 30, 255]\<rparr>)
      else Inr None)"

definition sample_encoder :: "canvas \<Rightarrow> error + byte list" where
  "sample_encoder cv = Inr (bitmap cv)"

definition sample_platform :: platform where
  "sample_platform =
     \<lparr>videoDecoder = sample_decoder, pixelStore = sample_store, canvasContext = True,
      alphaCanvasContext = True, pngCanvasContext = True, convertToBlob = sample_encoder\<rparr>"

section \<open>Facts about numbers and Buffer reads\<close>

lemma round_double_exact: "n < 2 ^ 53 \<Longrightarrow> round_double n = n"
  by (simp add: round_double_def)

lemma round_double_large:
  assumes "2 ^ 53 \<le> n"
  shows "2 ^ 53 \<le> round_double n"
proof -
  define e where "e = floorlog 2 n - 53"
  define q where "q = n div 2 ^ e"
  have n0: "0 < n"
    using assms by (metis less_le_trans zero_less_numeral zero_less_power)
  have fl: "54 \<le> floorlog 2 n"
    using floorlog_geI [where w = 54 and b = 2 and x = n] assms by simp
  have lo: "2 ^ (floorlog 2 n - 1) \<le> n"
    using floorlog_bounds [where x = n and b = 2] n0 by simp
  have "floorlog 2 n - 1 = 52 + e"
    using fl by (simp add: e_def)
  then have "2 ^ 52 * 2 ^ e \<le> n"
    using lo by (simp add: power_add)
  then have q52: "2 ^ 52 \<le> q"
    unfolding q_def
    by (metis div_le_mono nonzero_mult_div_cancel_right power_not_zero zero_neq_numeral)
  have e1: "1 \<le> e"
    using fl by (simp add: e_def)
  have "(2::nat) ^ 1 \<le> 2 ^ e"
    using e1 by (intro power_increasing) simp_all
  then have "(2::nat) ^ 52 * 2 ^ 1 \<le> q * 2 ^ e"
    using q52 by (intro mult_le_mono)
  then have a: "2 ^ 53 \<le> q * 2 ^ e"
    by simp
  then have b: "2 ^ 53 \<le> (q + 1) * 2 ^ e"
    by (metis add.commute le_add2 mult_le_mono1 order_trans)
  show ?thesis
    using assms a b
    by (simp add: round_double_def Let_def e_def [symmetric] q_def [symmetric] del: power_Suc)
qed

lemma round_double_ge:
  assumes "m \<le> 2 ^ 53" "m \<le> n"
  shows "m \<le> round_double n"
proof (cases "n < 2 ^ 53")
  case True
  then show ?thesis using assms by (simp add: round_double_exact)
next
  case False
  then have "2 ^ 53 \<le> n" by simp
  then have "2 ^ 53 \<le> round_double n" by (rule round_double_large)
  then show ?thesis using assms by linarith
qed

lemma or_bytes:
  fixes a b c :: nat
  assumes "a < 256" "b < 256" "c < 256"
  shows "(push_bit 16 a OR push_bit 8 b OR c) = a * 65536 + b * 256 + c"
proof -
  have a: "take_bit 8 a = a" and b: "take_bit 8 b = b" and c: "take_bit 8 c = c"
    using assms by (simp_all add: take_bit_nat_eq_self)
  have 1: "push_bit 8 (take_bit 8 b) AND take_bit 8 c = 0"
    by (auto simp: bit_eq_iff bit_simps)
  have 2: "push_bit 16 (take_bit 8 a) AND (push_bit 8 (take_bit 8 b) + take_bit 8 c) = 0"
    unfolding disjunctive_add_eq_or [OF 1] by (auto simp: bit_eq_iff bit_simps)
  have "push_bit 16 a OR push_bit 8 b OR c = push_bit 16 a + (push_bit 8 b + c)"
    using disjunctive_add_eq_or [OF 1] disjunctive_add_eq_or [OF 2] by (simp add: a b c)
  then show ?thesis by (simp add: push_bit_eq_mult)
qed

lemma nth_drop_take:
  "i < n \<Longrightarrow> off + n \<le> length buf \<Longrightarrow> field buf off n ! i = buf ! (off + i)"
  by (simp add: field_def)

lemma field4:
  assumes "off + 4 \<le> length buf"
  shows "field buf off 4 = [buf ! off, buf ! (off + 1), buf ! (off + 2), buf ! (off + 3)]"
proof (rule nth_equalityI)
  show "length (field buf off 4) = length [buf ! off, buf ! (off + 1), buf ! (off + 2), buf ! (off + 3)]"
    using assms by (simp add: field_def)
next
  fix i assume "i < length (field buf off 4)"
  then have "i < 4" by (simp add: field_def)
  then have "i = 0 \<or> i = 1 \<or> i = 2 \<or> i = 3" by arith
  then show "field buf off 4 ! i = [buf ! off, buf ! (off + 1), buf ! (off + 2), buf ! (off + 3)] ! i"
    using assms by (auto simp: nth_drop_take)
qed

lemma field8:
  assumes "off + 8 \<le> length buf"
  shows "field buf off 8 = [buf ! off, buf ! (off + 1), buf ! (off + 2), buf ! (off + 3),
                      buf ! (off + 4), buf ! (off + 5), buf ! (off + 6), buf ! (off + 7)]"
    (is "?l = ?r")
proof (rule nth_equalityI)
  show "length ?l = length ?r"
    using assms by (simp add: field_def)
next
  fix i assume "i < length ?l"
  then have "i < 8" by (simp add: field_def)
  then have "i = 0 \<or> i = 1 \<or> i = 2 \<or> i = 3 \<or> i = 4 \<or> i = 5 \<or> i = 6 \<or> i = 7" by arith
  then show "?l ! i = ?r ! i"
    using assms by (auto simp: nth_drop_take)
qed

lemma unat_byte: "unat (b :: byte) < 256"
  using unsigned_less [of b] by simp

lemma readUInt32BE_ok:
  assumes "off < 2 ^ 32" "off + 4 \<le> length buf"
  shows "readUInt32BE buf off = Inr (u32_at buf off)"
  using assms
  by (simp add: readUInt32BE_def ToUint32_def u32_at_def field4 big_endian_def or_bytes unat_byte)

lemma readUInt32BE_fail:
  assumes "off < 2 ^ 32" "length buf < off + 4"
  shows "readUInt32BE buf off = Inl RangeError"
  using assms by (simp add: readUInt32BE_def ToUint32_def)

lemma readBigUInt64BE_ok:
  assumes "off < 2 ^ 32" "off + 8 \<le> length buf"
  shows "readBigUInt64BE buf off = Inr (u64_at buf off)"
  using assms
  by (simp add: readBigUInt64BE_def ToUint32_def u64_at_def field8 big_endian_def push_bit_eq_mult)

lemma readBigUInt64BE_fail:
  assumes "off < 2 ^ 32" "length buf < off + 8"
  shows "readBigUInt64BE buf off = Inl RangeError"
  using assms by (auto simp add: readBigUInt64BE_def ToUint32_def)

lemma subarray_round:
  assumes "length buf < 2 ^ 53"
  shows "subarray buf a (number_plus a (Number n)) = field buf a n"
proof (cases "a < length buf")
  case False
  then show ?thesis by (simp add: subarray_def field_def Let_def)
next
  case less: True
  show ?thesis
  proof (cases "a + n < 2 ^ 53")
    case True
    then have "n < 2 ^ 53" by simp
    then have "number_plus a (Number n) = a + n"
      using True by (simp add: number_plus_def Number_def round_double_exact)
    then show ?thesis
      using less by (simp add: subarray_def field_def Let_def min_def)
  next
    case False
    have "2 ^ 53 \<le> a + Number n"
    proof (cases "n < 2 ^ 53")
      case True
      then show ?thesis using False by (simp add: Number_def round_double_exact)
    next
      case False
      then have "2 ^ 53 \<le> n" by simp
      then have "2 ^ 53 \<le> round_double n" by (rule round_double_large)
      then show ?thesis by (simp add: Number_def)
    qed
    then have "2 ^ 53 \<le> number_plus a (Number n)"
      unfolding number_plus_def by (rule round_double_large)
    then have e: "min (number_plus a (Number n)) (length buf) = length buf"
      using assms by simp
    have "length buf - a \<le> n" using False assms by simp
    then show ?thesis
      using less e by (simp add: subarray_def field_def Let_def)
  qed
qed

lemma subarray_beyond: "length buf \<le> a \<Longrightarrow> subarray buf a e = []"
  by (simp add: subarray_def Let_def)

lemma field_beyond: "length buf \<le> a \<Longrightarrow> field buf a n = []"
  by (simp add: field_def)

lemma passes_magic_length: "passes_magic buf \<Longrightarrow> 8 \<le> length buf"
proof -
  assume "passes_magic buf"
  then have "length (toString_ascii (subarray buf 0 8)) = length (js_literal ''Milimg00'')"
    by (simp add: passes_magic_def)
  then show ?thesis
    by (simp add: toString_ascii_def js_literal_def subarray_def Let_def)
qed

text \<open>The parser on a buffer below 4 GiB, up to the read of the alpha size.\<close>

lemma parse_prefix:
  assumes "length buf < 2 ^ 32"
  shows "parseMilimgContainer buf =
    (if \<not> passes_magic buf then Inl InvalidMagic
     else if length buf < 12 then Inl RangeError
     else if u32_at buf 8 \<noteq> 0 \<and> u32_at buf 8 \<noteq> 1 then Inl (UnsupportedVersion (u32_at buf 8))
     else if length buf < 28 then Inl RangeError
     else if u32_at buf 8 = 1 then
       (case readBigUInt64BE buf (number_plus 28 (Number (u64_at buf 20))) of
          Inl e \<Rightarrow> Inl e
        | Inr asize \<Rightarrow>
            Inr \<lparr>version = 1, width = u32_at buf 12, height = u32_at buf 16,
                 colorPayload = field buf 28 (u64_at buf 20),
                 alphaPayload = Some (subarray buf (number_plus (number_plus 28 (Number (u64_at buf 20))) 8)
                    (number_plus (number_plus (number_plus 28 (Number (u64_at buf 20))) 8) (Number asize)))\<rparr>)
     else Inr \<lparr>version = 0, width = u32_at buf 12, height = u32_at buf 16,
               colorPayload = field buf 28 (u64_at buf 20), alphaPayload = None\<rparr>)"
proof -
  have len53: "length buf < 2 ^ 53" using assms by simp
  note sr = subarray_round [OF len53]
  consider (a) "length buf < 12" | (b) "12 \<le> length buf" "length buf < 16"
    | (c) "16 \<le> length buf" "length buf < 20" | (d) "20 \<le> length buf" "length buf < 28"
    | (e) "28 \<le> length buf" by linarith
  then show ?thesis
  proof cases
    case a
    then show ?thesis
      by (simp add: parseMilimgContainer_def passes_magic_def readUInt32BE_fail)
  next
    case b
    then show ?thesis
      by (simp add: parseMilimgContainer_def passes_magic_def readUInt32BE_fail readUInt32BE_ok)
  next
    case c
    then show ?thesis
      by (simp add: parseMilimgContainer_def passes_magic_def readUInt32BE_fail readUInt32BE_ok)
  next
    case d
    then show ?thesis
      by (simp add: parseMilimgContainer_def passes_magic_def readUInt32BE_fail readUInt32BE_ok readBigUInt64BE_fail)
  next
    case e
    then show ?thesis
      by (auto simp add: parseMilimgContainer_def passes_magic_def readUInt32BE_ok readBigUInt64BE_ok sr Let_def
          split: sum.splits)
  qed
qed

lemma parse_v0:
  assumes "length buf < 2 ^ 32" "passes_magic buf" "28 \<le> length buf" "u32_at buf 8 = 0"
  shows "parseMilimgContainer buf =
    Inr \<lparr>version = 0, width = u32_at buf 12, height = u32_at buf 16,
         colorPayload = field buf 28 (u64_at buf 20), alphaPayload = None\<rparr>"
  using assms by (simp add: parse_prefix)

lemma alpha_offset_exact:
  assumes "28 + c < 2 ^ 32"
  shows "number_plus 28 (Number c) = 28 + c" "number_plus (28 + c) 8 = 36 + c"
proof -
  have "c < 2 ^ 53" "28 + c < 2 ^ 53" "36 + c < 2 ^ 53" using assms by simp_all
  then show "number_plus 28 (Number c) = 28 + c"
    by (simp add: number_plus_def Number_def round_double_exact)
  show "number_plus (28 + c) 8 = 36 + c"
    using \<open>36 + c < 2 ^ 53\<close> by (simp add: number_plus_def round_double_exact add.commute)
qed

lemma parse_v1:
  assumes "length buf < 2 ^ 32" "passes_magic buf" "u32_at buf 8 = 1"
    and "36 + u64_at buf 20 \<le> length buf"
  shows "parseMilimgContainer buf =
    Inr \<lparr>version = 1, width = u32_at buf 12, height = u32_at buf 16,
         colorPayload = field buf 28 (u64_at buf 20),
         alphaPayload = Some (field buf (36 + u64_at buf 20) (u64_at buf (28 + u64_at buf 20)))\<rparr>"
proof -
  have c: "28 + u64_at buf 20 < 2 ^ 32" using assms by simp
  have len53: "length buf < 2 ^ 53" using assms by simp
  have r: "readBigUInt64BE buf (28 + u64_at buf 20) = Inr (u64_at buf (28 + u64_at buf 20))"
    using assms c by (intro readBigUInt64BE_ok) simp_all
  have s: "subarray buf (36 + u64_at buf 20) (number_plus (36 + u64_at buf 20) (Number n))
      = field buf (36 + u64_at buf 20) n" for n
    by (rule subarray_round [OF len53])
  show ?thesis
    using assms by (simp add: parse_prefix alpha_offset_exact [OF c] r s)
qed

lemma parse_v1_short:
  assumes "length buf < 2 ^ 32" "passes_magic buf" "28 \<le> length buf" "u32_at buf 8 = 1"
    and "28 + u64_at buf 20 < 2 ^ 32" "length buf < 36 + u64_at buf 20"
  shows "parseMilimgContainer buf = Inl RangeError"
proof -
  have r: "readBigUInt64BE buf (28 + u64_at buf 20) = Inl RangeError"
    using assms by (intro readBigUInt64BE_fail) simp_all
  show ?thesis
    using assms by (simp add: parse_prefix alpha_offset_exact [OF assms(5)] r)
qed

lemma parse_v1_wrapped:
  assumes "length buf < 2 ^ 32" "passes_magic buf" "28 \<le> length buf" "u32_at buf 8 = 1"
    and "2 ^ 32 \<le> 28 + u64_at buf 20" "parseMilimgContainer buf = Inr h"
  shows "h = \<lparr>version = 1, width = u32_at buf 12, height = u32_at buf 16,
         colorPayload = field buf 28 (u64_at buf 20), alphaPayload = Some []\<rparr>"
proof -
  define c where "c = u64_at buf 20"
  have "2 ^ 32 \<le> 28 + Number c"
  proof (cases "c < 2 ^ 53")
    case True
    then show ?thesis using assms(5) by (simp add: Number_def round_double_exact c_def)
  next
    case False
    then have "2 ^ 53 \<le> c" by simp
    then have "2 ^ 53 \<le> round_double c" by (rule round_double_large)
    then show ?thesis by (simp add: Number_def)
  qed
  then have "2 ^ 32 \<le> number_plus 28 (Number c)"
    unfolding number_plus_def by (intro round_double_ge) simp_all
  then have "2 ^ 32 \<le> number_plus 28 (Number c) + 8" by simp
  then have "2 ^ 32 \<le> number_plus (number_plus 28 (Number c)) 8"
    unfolding number_plus_def [of _ 8] by (intro round_double_ge) simp_all
  then have "length buf \<le> number_plus (number_plus 28 (Number c)) 8"
    using assms(1) by simp
  then have "subarray buf (number_plus (number_plus 28 (Number c)) 8) e = []" for e
    by (rule subarray_beyond)
  then show ?thesis
    using assms by (auto simp add: parse_prefix c_def split: sum.splits)
qed

lemma parse_Inr:
  assumes "length buf < 2 ^ 32" "parseMilimgContainer buf = Inr h"
  shows "passes_magic buf \<and> 28 \<le> length buf \<and>
         version h = u32_at buf 8 \<and> (version h = 0 \<or> version h = 1) \<and>
         width h = u32_at buf 12 \<and> height h = u32_at buf 16 \<and>
         colorPayload h = field buf 28 (u64_at buf 20) \<and>
         alphaPayload h =
           (if version h = 1
            then Some (field buf (36 + u64_at buf 20) (u64_at buf (28 + u64_at buf 20)))
            else None)"
proof -
  have m: "passes_magic buf" and l: "28 \<le> length buf"
    and v: "u32_at buf 8 = 0 \<or> u32_at buf 8 = 1"
    using assms by (auto simp add: parse_prefix split: if_splits)
  from v show ?thesis
  proof
    assume v0: "u32_at buf 8 = 0"
    show ?thesis
      using assms(2) m l v0 unfolding parse_v0 [OF assms(1) m l v0] by auto
  next
    assume v1: "u32_at buf 8 = 1"
    consider (ok) "36 + u64_at buf 20 \<le> length buf"
      | (short) "28 + u64_at buf 20 < 2 ^ 32" "length buf < 36 + u64_at buf 20"
      | (wrapped) "2 ^ 32 \<le> 28 + u64_at buf 20" by linarith
    then show ?thesis
    proof cases
      case ok
      show ?thesis
        using assms(2) m l v1 unfolding parse_v1 [OF assms(1) m v1 ok] by auto
    next
      case short
      show ?thesis
        using assms(2) parse_v1_short [OF assms(1) m l v1 short] by simp
    next
      case wrapped
      have "length buf \<le> 36 + u64_at buf 20" using wrapped assms(1) by simp
      then have "field buf (36 + u64_at buf 20) n = []" for n by (rule field_beyond)
      then show ?thesis
        using parse_v1_wrapped [OF assms(1) m l v1 wrapped assms(2)] m l v1 by simp
    qed
  qed
qed

lemmas eval_defs =
  parseMilimgContainer_def toString_ascii_def js_literal_def subarray_def readUInt32BE_def
  readBigUInt64BE_def ToUint32_def Number_def number_plus_def round_double_def

lemmas layout_defs = field_def big_endian_def u32_at_def u64_at_def magic_bytes_def
  declared_end_def passes_magic_def toString_ascii_def js_literal_def subarray_def

lemma subarray_0_8: "8 \<le> length buf \<Longrightarrow> subarray buf 0 8 = take 8 buf"
  by (simp add: subarray_def Let_def)

lemma magic_bytes_pass:
  assumes "take 8 buf = magic_bytes"
  shows "passes_magic buf"
proof -
  have "length (take 8 buf) = 8" using assms by (simp add: magic_bytes_def)
  then have "8 \<le> length buf" by simp
  then show ?thesis
    using assms by (simp add: passes_magic_def subarray_0_8) (simp add: layout_defs)
qed

lemma passes_magic_append:
  assumes "passes_magic B"
  shows "passes_magic (B @ T)"
proof -
  have "8 \<le> length B" using assms by (rule passes_magic_length)
  then show ?thesis using assms by (simp add: passes_magic_def subarray_0_8)
qed

text \<open>
  The magic check, in terms of the bytes: it fails exactly with \<open>InvalidMagic\<close>, and
  it compares the first 8 bytes with the magic after clearing the high bit of each.
\<close>

lemma passes_magic_iff:
  "passes_magic buf \<longleftrightarrow>
     8 \<le> length buf \<and> map (\<lambda>b. b AND 0x7F) (take 8 buf) = magic_bytes"
proof (cases "8 \<le> length buf")
  case False
  then show ?thesis using passes_magic_length [of buf] by auto
next
  case True
  have "js_literal ''Milimg00'' = map unat magic_bytes"
    by (simp add: js_literal_def magic_bytes_def)
  then have "passes_magic buf \<longleftrightarrow>
      map unat (map (\<lambda>b. b AND 0x7F) (take 8 buf)) = map unat magic_bytes"
    using True by (simp add: passes_magic_def subarray_0_8 toString_ascii_def comp_def)
  also have "\<dots> \<longleftrightarrow> map (\<lambda>b. b AND 0x7F) (take 8 buf) = magic_bytes"
    by (rule inj_map_eq_map) (auto simp add: inj_on_def word_unat_eq_iff)
  finally show ?thesis using True by simp
qed

lemma parse_InvalidMagic:
  "parseMilimgContainer buf = Inl InvalidMagic \<longleftrightarrow> \<not> passes_magic buf"
  by (auto simp add: parseMilimgContainer_def passes_magic_def Let_def readUInt32BE_def
      readBigUInt64BE_def split: sum.splits if_splits)

lemma field_append:
  "off + n \<le> length B \<Longrightarrow> field (B @ T) off n = field B off n"
  by (simp add: field_def)

lemma parse_UnsupportedVersion:
  assumes "parseMilimgContainer buf = Inl (UnsupportedVersion v)"
  shows "readUInt32BE buf 8 = Inr v \<and> v \<noteq> 0 \<and> v \<noteq> 1"
  using assms
  by (auto simp add: parseMilimgContainer_def Let_def readBigUInt64BE_def readUInt32BE_def
      split: if_splits sum.splits)

section \<open>Facts about the compositor\<close>

lemma apply_alpha_length: "length (apply_alpha i d a) = length d"
proof (induction i d a rule: apply_alpha.induct)
  case (1 i d a)
  then show ?case by (simp add: apply_alpha.simps [of i d a])
qed

lemma apply_alpha_nth:
  assumes "4 dvd i" "j < length d"
  shows "apply_alpha i d a ! j =
    (if i \<le> j \<and> j mod 4 = 3 then (if j - 3 < length a then a ! (j - 3) else 0) else d ! j)"
  using assms
proof (induction i d a rule: apply_alpha.induct)
  case (1 i d a)
  show ?case
  proof (cases "i < length d")
    case False
    then show ?thesis using "1.prems" by (simp add: apply_alpha.simps [of i d a])
  next
    case True
    let ?d' = "d[i + 3 := (if i < length a then a ! i else 0)]"
    have dv: "4 dvd i + 4" using "1.prems" by simp
    have jl: "j < length ?d'" using "1.prems" by simp
    have step: "apply_alpha i d a = apply_alpha (i + 4) ?d' a"
      using True by (simp add: apply_alpha.simps [of i d a])
    have ih: "apply_alpha (i + 4) ?d' a ! j =
      (if i + 4 \<le> j \<and> j mod 4 = 3 then (if j - 3 < length a then a ! (j - 3) else 0) else ?d' ! j)"
      using "1.IH" [OF True dv jl] .
    have m: "i mod 4 = 0" using "1.prems" by presburger
    show ?thesis
    proof (cases "j = i + 3")
      case True
      then have "j mod 4 = 3" "i \<le> j" "\<not> i + 4 \<le> j" "j - 3 = i" using m by presburger+
      then show ?thesis unfolding step ih using True "1.prems" by simp
    next
      case False
      have "(i \<le> j \<and> j mod 4 = 3) = (i + 4 \<le> j \<and> j mod 4 = 3)"
        using False m by presburger
      then show ?thesis unfolding step ih using False by simp
    qed
  qed
qed

lemma pixel_index:
  fixes x y w h k :: nat
  assumes "x < w" "y < h" "k < 4"
  shows "4 * (y * w + x) + k < 4 * w * h"
    and "(4 * (y * w + x) + k) div 4 = y * w + x"
    and "(4 * (y * w + x) + k) mod 4 = k"
    and "(y * w + x) mod w = x"
    and "(y * w + x) div w = y"
proof -
  have "y * w + x < (y + 1) * w" using assms(1) by (simp add: algebra_simps)
  also have "\<dots> \<le> h * w" using assms(2) by (intro mult_le_mono1) simp
  finally have "y * w + x < w * h" by (simp add: mult.commute)
  then show "4 * (y * w + x) + k < 4 * w * h" using assms(3) by simp
  have "(4 * n + k) div 4 = n" "(4 * n + k) mod 4 = k" for n
    using assms(3) by presburger+
  then show "(4 * (y * w + x) + k) div 4 = y * w + x" "(4 * (y * w + x) + k) mod 4 = k"
    by blast+
  show "(y * w + x) mod w = x" using assms(1) by simp
  show "(y * w + x) div w = y" using assms(1) by simp
qed

lemma apply_alpha_pixel:
  assumes "4 * p + 3 < length d" "length a = length d"
  shows "apply_alpha 0 d a ! (4 * p + 3) = a ! (4 * p)"
    and "k < 3 \<Longrightarrow> apply_alpha 0 d a ! (4 * p + k) = d ! (4 * p + k)"
proof -
  have dvd0: "(4::nat) dvd 0" by simp
  have "(4 * p + 3) mod 4 = 3" by presburger
  moreover have "4 * p + 3 - 3 = 4 * p" "4 * p < length a" using assms by simp_all
  ultimately show "apply_alpha 0 d a ! (4 * p + 3) = a ! (4 * p)"
    by (simp only: apply_alpha_nth [OF dvd0 assms(1)] le0 simp_thms if_True)
  assume k: "k < 3"
  then have "(4 * p + k) mod 4 \<noteq> 3" by presburger
  moreover have "4 * p + k < length d" using assms(1) k by simp
  ultimately show "apply_alpha 0 d a ! (4 * p + k) = d ! (4 * p + k)"
    by (simp only: apply_alpha_nth [OF dvd0] simp_thms if_False)
qed

lemma sample_store_sound: "sound_store sample_store"
proof -
  have a: "round_unpremultiply 255 (round_premultiply 255 c) = c" for c
  proof -
    have "unat c \<le> 255" using unat_byte [of c] by simp
    then have "min 255 (unat c) = unat c" by simp
    then show ?thesis
      by (simp add: round_unpremultiply_def round_premultiply_def)
  qed
  have b: "round_unpremultiply 0 s = 0" for s
    by (simp add: round_unpremultiply_def)
  show ?thesis
    using a b by (simp add: sound_store_def sample_store_def)
qed

lemma read_back_opaque: "sound_store st \<Longrightarrow> read_back st 255 c = c"
  by (simp add: sound_store_def read_back_def)

lemma read_back_transparent: "sound_store st \<Longrightarrow> read_back st 0 c = 0"
  by (simp add: sound_store_def read_back_def)

lemma store_length:
  "length (to_store st d) = length d" "length (from_store st d) = length d"
  by (simp_all add: to_store_def from_store_def)

lemma store_nth:
  assumes "j < length d"
  shows "to_store st d ! j =
      (if j mod 4 = 3 then d ! j else premultiply st (d ! (4 * (j div 4) + 3)) (d ! j))"
    and "from_store st d ! j =
      (if j mod 4 = 3 then d ! j else unpremultiply st (d ! (4 * (j div 4) + 3)) (d ! j))"
  using assms by (simp_all add: to_store_def from_store_def)

lemma index_facts:
  fixes p k :: nat
  assumes "k < 4"
  shows "(4 * p + k) div 4 = p" "(4 * p + k) mod 4 = k"
  using assms by presburger+

lemma store_pixel:
  assumes "4 * p + 3 < length d"
  shows "to_store st d ! (4 * p + 3) = d ! (4 * p + 3)"
    and "from_store st d ! (4 * p + 3) = d ! (4 * p + 3)"
    and "k < 3 \<Longrightarrow> to_store st d ! (4 * p + k) = premultiply st (d ! (4 * p + 3)) (d ! (4 * p + k))"
    and "k < 3 \<Longrightarrow> from_store st d ! (4 * p + k) = unpremultiply st (d ! (4 * p + 3)) (d ! (4 * p + k))"
proof -
  have m3: "(4 * p + 3) mod 4 = 3" by presburger
  show "to_store st d ! (4 * p + 3) = d ! (4 * p + 3)"
    by (simp only: store_nth(1) [OF assms] m3 simp_thms if_True)
  show "from_store st d ! (4 * p + 3) = d ! (4 * p + 3)"
    by (simp only: store_nth(2) [OF assms] m3 simp_thms if_True)
  {
    assume k: "k < 3"
    define j where "j = 4 * p + k"
    have jl: "j < length d" using assms k by (simp add: j_def)
    have jm: "j mod 4 \<noteq> 3" and jd: "j div 4 = p"
      unfolding j_def using k by presburger+
    have "to_store st d ! j = premultiply st (d ! (4 * p + 3)) (d ! j)"
      by (simp only: store_nth(1) [OF jl] jm jd if_False)
    then show "to_store st d ! (4 * p + k) = premultiply st (d ! (4 * p + 3)) (d ! (4 * p + k))"
      by (simp only: j_def)
    have "from_store st d ! j = unpremultiply st (d ! (4 * p + 3)) (d ! j)"
      by (simp only: store_nth(2) [OF jl] jm jd if_False)
    then show "from_store st d ! (4 * p + k) = unpremultiply st (d ! (4 * p + 3)) (d ! (4 * p + k))"
      by (simp only: j_def)
  }
qed

lemma drawImage_fresh_length:
  "length (bitmap (drawImage st (OffscreenCanvas w h) f)) = 4 * w * h"
  by (simp add: drawImage_def OffscreenCanvas_def)

lemma drawImage_fresh_size:
  "canvasWidth (drawImage st (OffscreenCanvas w h) f) = w"
  "canvasHeight (drawImage st (OffscreenCanvas w h) f) = h"
  by (simp_all add: drawImage_def OffscreenCanvas_def)

lemma drawImage_fresh_nth:
  assumes "i < 4 * w * h"
  shows "bitmap (drawImage st (OffscreenCanvas w h) f) ! i =
    (if (i div 4) mod w < displayWidth f \<and> (i div 4) div w < displayHeight f
     then
       (if i mod 4 = 3
        then rgba f ! (4 * ((i div 4) div w * displayWidth f + (i div 4) mod w) + 3)
        else premultiply st
               (rgba f ! (4 * ((i div 4) div w * displayWidth f + (i div 4) mod w) + 3))
               (rgba f ! (4 * ((i div 4) div w * displayWidth f + (i div 4) mod w) + i mod 4)))
     else 0)"
  using assms by (simp add: drawImage_def OffscreenCanvas_def Let_def)

text \<open>A pixel of a canvas just made, after a frame is drawn on it.\<close>

lemma fresh_pixel:
  assumes "x < w" "y < h"
  shows "bitmap (drawImage st (OffscreenCanvas w h) f) ! (4 * (y * w + x) + 3) =
      (if x < displayWidth f \<and> y < displayHeight f then pixel f x y 3 else 0)"
    and "k < 3 \<Longrightarrow> bitmap (drawImage st (OffscreenCanvas w h) f) ! (4 * (y * w + x) + k) =
      (if x < displayWidth f \<and> y < displayHeight f
       then premultiply st (pixel f x y 3) (pixel f x y k) else 0)"
proof -
  have *: "bitmap (drawImage st (OffscreenCanvas w h) f) ! (4 * (y * w + x) + k) =
      (if x < displayWidth f \<and> y < displayHeight f
       then (if k = 3 then pixel f x y 3 else premultiply st (pixel f x y 3) (pixel f x y k))
       else 0)" if k: "k < 4" for k
  proof -
    define j where "j = 4 * (y * w + x) + k"
    note ix = pixel_index [OF assms k, folded j_def]
    have "bitmap (drawImage st (OffscreenCanvas w h) f) ! j =
      (if x < displayWidth f \<and> y < displayHeight f
       then (if k = 3 then pixel f x y 3 else premultiply st (pixel f x y 3) (pixel f x y k))
       else 0)"
      unfolding drawImage_fresh_nth [OF ix(1)] pixel_def by (simp only: ix)
    then show ?thesis by (simp only: j_def)
  qed
  show "bitmap (drawImage st (OffscreenCanvas w h) f) ! (4 * (y * w + x) + 3) =
      (if x < displayWidth f \<and> y < displayHeight f then pixel f x y 3 else 0)"
    using * [of 3] by simp
  assume "k < 3"
  then show "bitmap (drawImage st (OffscreenCanvas w h) f) ! (4 * (y * w + x) + k) =
      (if x < displayWidth f \<and> y < displayHeight f
       then premultiply st (pixel f x y 3) (pixel f x y k) else 0)"
    using * [of k] by simp
qed

text \<open>The \<^verbatim>\<open>ImageData\<close> read from a canvas just made, after a frame is drawn on it.\<close>

lemma image_data_pixel:
  assumes "x < w" "y < h"
  shows "from_store st (bitmap (drawImage st (OffscreenCanvas w h) f)) ! (4 * (y * w + x) + 3) =
      (if x < displayWidth f \<and> y < displayHeight f then pixel f x y 3 else 0)"
    and "k < 3 \<Longrightarrow>
      from_store st (bitmap (drawImage st (OffscreenCanvas w h) f)) ! (4 * (y * w + x) + k) =
      (if x < displayWidth f \<and> y < displayHeight f
       then read_back st (pixel f x y 3) (pixel f x y k) else unpremultiply st 0 0)"
proof -
  let ?bm = "bitmap (drawImage st (OffscreenCanvas w h) f)"
  define p where "p = y * w + x"
  have l: "4 * p + 3 < length ?bm"
    using pixel_index(1) [OF assms, of 3] by (simp add: drawImage_fresh_length p_def)
  show "from_store st ?bm ! (4 * (y * w + x) + 3) =
      (if x < displayWidth f \<and> y < displayHeight f then pixel f x y 3 else 0)"
    using store_pixel(2) [OF l, of st] fresh_pixel(1) [OF assms, of st f]
    by (simp only: p_def)
  assume k: "k < 3"
  show "from_store st ?bm ! (4 * (y * w + x) + k) =
      (if x < displayWidth f \<and> y < displayHeight f
       then read_back st (pixel f x y 3) (pixel f x y k) else unpremultiply st 0 0)"
    using store_pixel(4) [OF l k, of st] fresh_pixel(1) [OF assms, of st f]
      fresh_pixel(2) [OF assms k, of st f]
    by (simp add: p_def read_back_def)
qed

lemma combine_ok:
  assumes "0 < displayWidth c" "0 < displayHeight c"
  shows "combineRGBAFrames st True True c a =
    Inr \<lparr>displayWidth = displayWidth c, displayHeight = displayHeight c,
         rgba = from_store st (to_store st (apply_alpha 0
           (from_store st (bitmap (drawImage st (OffscreenCanvas (displayWidth c) (displayHeight c)) c)))
           (from_store st (bitmap (drawImage st (OffscreenCanvas (displayWidth c) (displayHeight c)) a)))))\<rparr>"
  using assms
  by (simp add: combineRGBAFrames_def Let_def getImageData_def drawImage_fresh_size
      putImageData_def VideoFrame_of_canvas_def)

text \<open>
  A pixel of the frame \<^verbatim>\<open>combineRGBAFrames\<close> returns: its alpha is the red channel read
  from the alpha canvas, and its colours are the colour canvas's, read back under that
  alpha.
\<close>

lemma combine_pixel:
  fixes st :: pixel_store and c a :: VideoFrame and x y :: nat
  assumes "0 < displayWidth c" "0 < displayHeight c"
    and "x < displayWidth c" "y < displayHeight c"
  defines "A \<equiv> (if x < displayWidth a \<and> y < displayHeight a
      then read_back st (pixel a x y 3) (pixel a x y 0) else unpremultiply st 0 0)"
  shows "\<exists>out. combineRGBAFrames st True True c a = Inr out \<and>
      displayWidth out = displayWidth c \<and> displayHeight out = displayHeight c \<and>
      length (rgba out) = 4 * displayWidth c * displayHeight c \<and>
      pixel out x y 3 = A \<and>
      (\<forall>k<3. pixel out x y k = read_back st A (read_back st (pixel c x y 3) (pixel c x y k)))"
proof -
  let ?w = "displayWidth c" and ?h = "displayHeight c"
  let ?data = "from_store st (bitmap (drawImage st (OffscreenCanvas ?w ?h) c))"
  let ?alphaData = "from_store st (bitmap (drawImage st (OffscreenCanvas ?w ?h) a))"
  let ?d = "apply_alpha 0 ?data ?alphaData"
  let ?out = "\<lparr>displayWidth = ?w, displayHeight = ?h, rgba = from_store st (to_store st ?d)\<rparr>"
  define p where "p = y * ?w + x"
  have ld: "length ?data = 4 * ?w * ?h" and la: "length ?alphaData = length ?data"
    by (simp_all add: store_length drawImage_fresh_length)
  have l: "4 * p + 3 < length ?data"
    using pixel_index(1) [OF assms(3,4), of 3] by (simp add: ld p_def)
  have l': "4 * p + 3 < length ?d" "4 * p + 3 < length (to_store st ?d)"
    using l by (simp_all add: apply_alpha_length store_length)
  have d3: "?d ! (4 * p + 3) = A"
    using apply_alpha_pixel(1) [OF l la] image_data_pixel(2) [OF assms(3,4), of 0 st a]
    by (simp add: p_def A_def)
  have dk: "?d ! (4 * p + k) = read_back st (pixel c x y 3) (pixel c x y k)" if k: "k < 3" for k
    using apply_alpha_pixel(2) [OF l la k] image_data_pixel(2) [OF assms(3,4) k, of st c]
      assms(3,4)
    by (simp add: p_def)
  have o3: "rgba ?out ! (4 * p + 3) = A"
    using store_pixel(2) [OF l'(2), of st] store_pixel(1) [OF l'(1), of st] d3 by simp
  have ok: "rgba ?out ! (4 * p + k) = read_back st A (read_back st (pixel c x y 3) (pixel c x y k))"
    if k: "k < 3" for k
    using store_pixel(4) [OF l'(2) k, of st] store_pixel(1) [OF l'(1), of st]
      store_pixel(3) [OF l'(1) k, of st] d3 dk [OF k]
    by (simp add: read_back_def)
  have r: "combineRGBAFrames st True True c a = Inr ?out"
    using assms(1,2) by (rule combine_ok)
  have len: "length (rgba ?out) = 4 * ?w * ?h"
    by (simp add: store_length apply_alpha_length drawImage_fresh_length)
  show ?thesis
    using r len o3 ok by (intro exI [of _ ?out]) (simp add: pixel_def p_def)
qed

lemmas canvas_defs = combineRGBAFrames_def OffscreenCanvas_def drawImage_def getImageData_def
  putImageData_def VideoFrame_of_canvas_def to_store_def from_store_def sample_store_def
  round_premultiply_def round_unpremultiply_def Let_def upt_rec apply_alpha.simps

section \<open>The claims\<close>

subsection \<open>C1: the header is read off the fixed layout\<close>

text \<open>
  C1. Every buffer (below 4 GiB) the parser accepts holds the 28 bytes of fixed fields,
  and the header is read off it in the big-endian layout: the version is the u32 at
  offset 8 and is 0 or 1, the width the u32 at offset 12, the height the u32 at offset
  16; the colour payload is the bytes from offset 28 up to \<open>colorPayloadSize\<close> of them
  (the u64 at offset 20), or up to the end of the buffer when it ends before; the alpha
  payload is there exactly when the version is 1, and is then the bytes after the u64
  size at offset \<open>28 + colorPayloadSize\<close>, again up to the end of the buffer.
\<close>

theorem parse_reads_layout:
  assumes "length buf < 2 ^ 32" and "parseMilimgContainer buf = Inr h"
  shows "28 \<le> length buf \<and>
         version h = u32_at buf 8 \<and> (version h = 0 \<or> version h = 1) \<and>
         width h = u32_at buf 12 \<and> height h = u32_at buf 16 \<and>
         colorPayload h = field buf 28 (u64_at buf 20) \<and>
         alphaPayload h =
           (if version h = 1
            then Some (field buf (36 + u64_at buf 20) (u64_at buf (28 + u64_at buf 20)))
            else None)"
  using parse_Inr [OF assms] by auto

text \<open>A version-1 container with a two-byte colour payload and a three-byte alpha payload.\<close>

theorem parse_reads_layout_witness:
  "parseMilimgContainer
     [0x4D, 0x69, 0x6C, 0x69, 0x6D, 0x67, 0x30, 0x30, 0, 0, 0, 1, 0, 0, 0, 2, 0, 0, 0, 3,
      0, 0, 0, 0, 0, 0, 0, 2, 0xAA, 0xBB, 0, 0, 0, 0, 0, 0, 0, 3, 1, 2, 3] =
     Inr \<lparr>version = 1, width = 2, height = 3, colorPayload = [0xAA, 0xBB],
          alphaPayload = Some [1, 2, 3]\<rparr> \<and>
   field [0x4D, 0x69, 0x6C, 0x69, 0x6D, 0x67, 0x30, 0x30, 0, 0, 0, 1, 0, 0, 0, 2, 0, 0, 0, 3,
      0, 0, 0, 0, 0, 0, 0, 2, 0xAA, 0xBB, 0, 0, 0, 0, 0, 0, 0, 3, 1, 2, 3] 28 2 = [0xAA, 0xBB]"
proof -
  let ?B = "[0x4D, 0x69, 0x6C, 0x69, 0x6D, 0x67, 0x30, 0x30, 0, 0, 0, 1, 0, 0, 0, 2, 0, 0, 0, 3,
      0, 0, 0, 0, 0, 0, 0, 2, 0xAA, 0xBB, 0, 0, 0, 0, 0, 0, 0, 3, 1, 2, 3] :: byte list"
  let ?H = "\<lparr>version = 1, width = 2, height = 3, colorPayload = [0xAA, 0xBB],
          alphaPayload = Some [1, 2, 3]\<rparr>"
  have l: "length ?B < 2 ^ 32" by simp
  have p: "parseMilimgContainer ?B = Inr ?H" by (simp add: eval_defs)
  have u: "u64_at ?B 20 = 2" by (simp add: layout_defs)
  from parse_reads_layout [OF l p] have "colorPayload ?H = field ?B 28 (u64_at ?B 20)" by blast
  then show ?thesis using p u by simp
qed

text \<open>
  As the claim states it, the colour payload would always have \<open>colorPayloadSize\<close> bytes.
  A version-0 container that declares 5 bytes and holds 2 is accepted, with a payload of
  2 bytes.
\<close>

theorem truncated_color_payload_accepted:
  "parseMilimgContainer
     [0x4D, 0x69, 0x6C, 0x69, 0x6D, 0x67, 0x30, 0x30, 0, 0, 0, 0, 0, 0, 0, 1, 0, 0, 0, 1,
      0, 0, 0, 0, 0, 0, 0, 5, 1, 2] =
     Inr \<lparr>version = 0, width = 1, height = 1, colorPayload = [1, 2], alphaPayload = None\<rparr> \<and>
   u64_at [0x4D, 0x69, 0x6C, 0x69, 0x6D, 0x67, 0x30, 0x30, 0, 0, 0, 0, 0, 0, 0, 1, 0, 0, 0, 1,
      0, 0, 0, 0, 0, 0, 0, 5, 1, 2] 20 = 5 \<and>
   length (colorPayload \<lparr>version = 0, width = 1, height = 1, colorPayload = [1, 2],
      alphaPayload = None\<rparr>) = 2"
  by (simp add: eval_defs layout_defs)

subsection \<open>C2: the composited plane\<close>

text \<open>
  C2. For a colour plane and an alpha plane of the same width and height (both canvas
  contexts given), \<^verbatim>\<open>combineRGBAFrames\<close> returns a plane of that size. At every pixel
  index where both planes are opaque, as decoded planes are, the alpha of the output
  is the alpha plane's red channel, and red, green and blue are the colour plane's as
  the canvas reads them back under that alpha: the colour plane's own where the alpha
  is 255, and 0 where the alpha is 0.
\<close>

theorem combine_same_size:
  assumes "wf_frame c" and "wf_frame a"
    and "displayWidth a = displayWidth c" and "displayHeight a = displayHeight c"
    and "sound_store st" and "p < displayWidth c * displayHeight c"
    and "rgba c ! (4 * p + 3) = 255" and "rgba a ! (4 * p + 3) = 255"
  shows "\<exists>out. combineRGBAFrames st True True c a = Inr out \<and>
      displayWidth out = displayWidth c \<and> displayHeight out = displayHeight c \<and>
      length (rgba out) = 4 * displayWidth c * displayHeight c \<and>
      rgba out ! (4 * p + 3) = rgba a ! (4 * p) \<and>
      (\<forall>k<3. rgba out ! (4 * p + k) = read_back st (rgba a ! (4 * p)) (rgba c ! (4 * p + k))) \<and>
      (rgba a ! (4 * p) = 255 \<longrightarrow> (\<forall>k<3. rgba out ! (4 * p + k) = rgba c ! (4 * p + k))) \<and>
      (rgba a ! (4 * p) = 0 \<longrightarrow> (\<forall>k<3. rgba out ! (4 * p + k) = 0))"
proof -
  let ?w = "displayWidth c" and ?h = "displayHeight c"
  define x where "x = p mod ?w"
  define y where "y = p div ?w"
  have pos: "0 < ?w" "0 < ?h"
    using assms(1) by (simp_all add: wf_frame_def)
  have x: "x < ?w" using pos by (simp add: x_def)
  have "p < ?h * ?w" using assms(6) by (simp add: mult.commute)
  then have y: "y < ?h" using pos by (simp add: y_def less_mult_imp_div_less)
  have p: "y * ?w + x = p" by (simp add: x_def y_def)
  have pc: "pixel c x y k = rgba c ! (4 * p + k)" for k
    by (simp add: pixel_def p)
  have pa: "pixel a x y k = rgba a ! (4 * p + k)" for k
    by (simp add: pixel_def assms(3) p)
  have inside: "x < displayWidth a \<and> y < displayHeight a"
    using x y assms(3,4) by simp
  from combine_pixel [OF pos x y, where a = a and st = st] obtain out where
    r: "combineRGBAFrames st True True c a = Inr out"
    and d: "displayWidth out = ?w" "displayHeight out = ?h"
    and l: "length (rgba out) = 4 * ?w * ?h"
    and o3: "pixel out x y 3 = read_back st (pixel a x y 3) (pixel a x y 0)"
    and ok: "\<forall>k<3. pixel out x y k =
        read_back st (read_back st (pixel a x y 3) (pixel a x y 0))
          (read_back st (pixel c x y 3) (pixel c x y k))"
    using inside by auto
  have po: "pixel out x y k = rgba out ! (4 * p + k)" for k
    by (simp add: pixel_def d p)
  have a3: "rgba out ! (4 * p + 3) = rgba a ! (4 * p)"
    using o3 assms(5,8) by (simp add: po pa read_back_opaque)
  have ak: "\<forall>k<3. rgba out ! (4 * p + k) = read_back st (rgba a ! (4 * p)) (rgba c ! (4 * p + k))"
    using ok assms(5,7,8) by (simp add: po pa pc read_back_opaque)
  have hi: "\<forall>k<3. rgba out ! (4 * p + k) = rgba c ! (4 * p + k)" if "rgba a ! (4 * p) = 255"
    using ak that assms(5) by (simp add: read_back_opaque)
  have lo: "\<forall>k<3. rgba out ! (4 * p + k) = 0" if "rgba a ! (4 * p) = 0"
    using ak that assms(5) by (simp add: read_back_transparent)
  show ?thesis
    using r d l a3 ak hi lo by (intro exI [of _ out]) simp
qed

text \<open>
  On a canvas that rounds to the nearest: the colour plane (10, 20, 30, 255) with alpha
  red 128 at every pixel gives (10, 20, 30, 128) at every pixel; with alpha red 255 at
  one pixel and 0 at the other, the first keeps its colour and the second is
  transparent black.
\<close>

theorem combine_same_size_witness:
  "combineRGBAFrames sample_store True True
     \<lparr>displayWidth = 2, displayHeight = 1, rgba = [10, 20, 30, 255, 10, 20, 30, 255]\<rparr>
     \<lparr>displayWidth = 2, displayHeight = 1, rgba = [128, 7, 9, 255, 128, 7, 9, 255]\<rparr> =
   Inr \<lparr>displayWidth = 2, displayHeight = 1, rgba = [10, 20, 30, 128, 10, 20, 30, 128]\<rparr> \<and>
   combineRGBAFrames sample_store True True
     \<lparr>displayWidth = 2, displayHeight = 1, rgba = [10, 20, 30, 255, 40, 50, 60, 255]\<rparr>
     \<lparr>displayWidth = 2, displayHeight = 1, rgba = [255, 7, 9, 255, 0, 7, 9, 255]\<rparr> =
   Inr \<lparr>displayWidth = 2, displayHeight = 1, rgba = [10, 20, 30, 255, 0, 0, 0, 0]\<rparr>"
proof -
  let ?C = "\<lparr>displayWidth = 2, displayHeight = 1, rgba = [10, 20, 30, 255, 10, 20, 30, 255]\<rparr>"
  let ?A = "\<lparr>displayWidth = 2, displayHeight = 1, rgba = [128, 7, 9, 255, 128, 7, 9, 255]\<rparr>"
  let ?C' = "\<lparr>displayWidth = 2, displayHeight = 1, rgba = [10, 20, 30, 255, 40, 50, 60, 255]\<rparr>"
  let ?A' = "\<lparr>displayWidth = 2, displayHeight = 1, rgba = [255, 7, 9, 255, 0, 7, 9, 255]\<rparr>"
  have wf: "wf_frame ?C" "wf_frame ?A" and wf': "wf_frame ?C'" "wf_frame ?A'"
    by (simp_all add: wf_frame_def)
  have d: "displayWidth ?A = displayWidth ?C" "displayHeight ?A = displayHeight ?C"
    and d': "displayWidth ?A' = displayWidth ?C'" "displayHeight ?A' = displayHeight ?C'"
    by simp_all
  have p1: "1 < displayWidth ?C * displayHeight ?C" "rgba ?C ! (4 * 1 + 3) = 255"
    "rgba ?A ! (4 * 1 + 3) = 255" by simp_all
  have p0': "0 < displayWidth ?C' * displayHeight ?C'" "rgba ?C' ! (4 * 0 + 3) = 255"
    "rgba ?A' ! (4 * 0 + 3) = 255" by simp_all
  have p1': "1 < displayWidth ?C' * displayHeight ?C'" "rgba ?C' ! (4 * 1 + 3) = 255"
    "rgba ?A' ! (4 * 1 + 3) = 255" by simp_all
  note s = sample_store_sound
  from combine_same_size [OF wf d s p1] obtain out where
    o: "combineRGBAFrames sample_store True True ?C ?A = Inr out"
    and q: "rgba out ! (4 * 1 + 3) = rgba ?A ! (4 * 1)" by blast
  from combine_same_size [OF wf' d' s p0'] obtain out' where
    o': "combineRGBAFrames sample_store True True ?C' ?A' = Inr out'"
    and hi: "rgba ?A' ! (4 * 0) = 255 \<longrightarrow> (\<forall>k<3. rgba out' ! (4 * 0 + k) = rgba ?C' ! (4 * 0 + k))"
    by blast
  from combine_same_size [OF wf' d' s p1'] obtain out'' where
    o'': "combineRGBAFrames sample_store True True ?C' ?A' = Inr out''"
    and lo: "rgba ?A' ! (4 * 1) = 0 \<longrightarrow> (\<forall>k<3. rgba out'' ! (4 * 1 + k) = 0)"
    by blast
  have e: "combineRGBAFrames sample_store True True ?C ?A =
      Inr \<lparr>displayWidth = 2, displayHeight = 1, rgba = [10, 20, 30, 128, 10, 20, 30, 128]\<rparr>"
    by (simp add: canvas_defs)
  have e': "combineRGBAFrames sample_store True True ?C' ?A' =
      Inr \<lparr>displayWidth = 2, displayHeight = 1, rgba = [10, 20, 30, 255, 0, 0, 0, 0]\<rparr>"
    by (simp add: canvas_defs)
  from o e q have "rgba ?A ! (4 * 1) = 128" by simp
  moreover from o' e' hi have "\<forall>k<3. rgba out' ! (4 * 0 + k) = rgba ?C' ! (4 * 0 + k)" by simp
  moreover from o'' e' lo have "\<forall>k<3. rgba out'' ! (4 * 1 + k) = 0" by simp
  ultimately show ?thesis using e e' by simp
qed

text \<open>
  As the claim states it, red, green and blue would be the colour plane's at every
  pixel. Where the alpha plane's red is 0, the returned pixel is (0, 0, 0, 0): the
  colour (10, 20, 30) is gone.
\<close>

theorem transparent_pixel_loses_colour:
  "combineRGBAFrames sample_store True True
     \<lparr>displayWidth = 1, displayHeight = 1, rgba = [10, 20, 30, 255]\<rparr>
     \<lparr>displayWidth = 1, displayHeight = 1, rgba = [0, 0, 0, 255]\<rparr> =
   Inr \<lparr>displayWidth = 1, displayHeight = 1, rgba = [0, 0, 0, 0]\<rparr>"
  by (simp add: canvas_defs)

subsection \<open>C3: payloads shorter than declared\<close>

text \<open>
  C3. The parser makes no truncation check. For a buffer (below 4 GiB) that passes the
  magic check and holds the 28 bytes of fixed fields:
  \<^item> with version 0 and fewer bytes after the size field than \<open>colorPayloadSize\<close>, it
    returns a header whose colour payload is the bytes that remain;
  \<^item> with version 1 and fewer bytes than \<open>colorPayloadSize\<close>, where
    \<open>28 + colorPayloadSize\<close> is below 4 GiB, it fails, with the \<^verbatim>\<open>RangeError\<close> of
    reading the alpha size beyond the buffer;
  \<^item> with version 1, the alpha size field in place and fewer bytes after it than it
    declares, it returns a header whose alpha payload is the bytes that remain.
\<close>

theorem truncated_payloads:
  assumes "length buf < 2 ^ 32" and "passes_magic buf" and "28 \<le> length buf"
  shows "(u32_at buf 8 = 0 \<and> length buf < 28 + u64_at buf 20 \<longrightarrow>
            parseMilimgContainer buf =
              Inr \<lparr>version = 0, width = u32_at buf 12, height = u32_at buf 16,
                   colorPayload = drop 28 buf, alphaPayload = None\<rparr>) \<and>
         (u32_at buf 8 = 1 \<and> length buf < 28 + u64_at buf 20 \<and> 28 + u64_at buf 20 < 2 ^ 32 \<longrightarrow>
            parseMilimgContainer buf = Inl RangeError) \<and>
         (u32_at buf 8 = 1 \<and> 36 + u64_at buf 20 \<le> length buf \<and>
          length buf < 36 + u64_at buf 20 + u64_at buf (28 + u64_at buf 20) \<longrightarrow>
            parseMilimgContainer buf =
              Inr \<lparr>version = 1, width = u32_at buf 12, height = u32_at buf 16,
                   colorPayload = field buf 28 (u64_at buf 20),
                   alphaPayload = Some (drop (36 + u64_at buf 20) buf)\<rparr>)"
proof (intro conjI impI)
  assume a: "u32_at buf 8 = 0 \<and> length buf < 28 + u64_at buf 20"
  then have "length buf - 28 \<le> u64_at buf 20" by linarith
  then have "field buf 28 (u64_at buf 20) = drop 28 buf"
    by (simp add: field_def)
  then show "parseMilimgContainer buf =
      Inr \<lparr>version = 0, width = u32_at buf 12, height = u32_at buf 16,
           colorPayload = drop 28 buf, alphaPayload = None\<rparr>"
    using parse_v0 [OF assms] a by simp
next
  assume a: "u32_at buf 8 = 1 \<and> length buf < 28 + u64_at buf 20 \<and> 28 + u64_at buf 20 < 2 ^ 32"
  then show "parseMilimgContainer buf = Inl RangeError"
    using parse_v1_short [OF assms] by simp
next
  assume a: "u32_at buf 8 = 1 \<and> 36 + u64_at buf 20 \<le> length buf \<and>
          length buf < 36 + u64_at buf 20 + u64_at buf (28 + u64_at buf 20)"
  then have "length buf - (36 + u64_at buf 20) \<le> u64_at buf (28 + u64_at buf 20)"
    by linarith
  then have "field buf (36 + u64_at buf 20) (u64_at buf (28 + u64_at buf 20)) =
      drop (36 + u64_at buf 20) buf"
    by (simp add: field_def)
  then show "parseMilimgContainer buf =
      Inr \<lparr>version = 1, width = u32_at buf 12, height = u32_at buf 16,
           colorPayload = field buf 28 (u64_at buf 20),
           alphaPayload = Some (drop (36 + u64_at buf 20) buf)\<rparr>"
    using parse_v1 [OF assms(1,2)] a by simp
qed

text \<open>One container for each of the three cases, each declaring more than it holds.\<close>

theorem truncated_payloads_witness:
  "parseMilimgContainer
     [0x4D, 0x69, 0x6C, 0x69, 0x6D, 0x67, 0x30, 0x30, 0, 0, 0, 0, 0, 0, 0, 2, 0, 0, 0, 2,
      0, 0, 0, 0, 0, 0, 0, 9, 7, 8] =
     Inr \<lparr>version = 0, width = 2, height = 2, colorPayload = [7, 8], alphaPayload = None\<rparr> \<and>
   parseMilimgContainer
     [0x4D, 0x69, 0x6C, 0x69, 0x6D, 0x67, 0x30, 0x30, 0, 0, 0, 1, 0, 0, 0, 2, 0, 0, 0, 2,
      0, 0, 0, 0, 0, 0, 0, 9, 7, 8] = Inl RangeError \<and>
   parseMilimgContainer
     [0x4D, 0x69, 0x6C, 0x69, 0x6D, 0x67, 0x30, 0x30, 0, 0, 0, 1, 0, 0, 0, 2, 0, 0, 0, 2,
      0, 0, 0, 0, 0, 0, 0, 1, 7, 0, 0, 0, 0, 0, 0, 0, 6, 5, 4] =
     Inr \<lparr>version = 1, width = 2, height = 2, colorPayload = [7], alphaPayload = Some [5, 4]\<rparr>"
proof -
  let ?A = "[0x4D, 0x69, 0x6C, 0x69, 0x6D, 0x67, 0x30, 0x30, 0, 0, 0, 0, 0, 0, 0, 2, 0, 0, 0, 2,
      0, 0, 0, 0, 0, 0, 0, 9, 7, 8] :: byte list"
  let ?B = "[0x4D, 0x69, 0x6C, 0x69, 0x6D, 0x67, 0x30, 0x30, 0, 0, 0, 1, 0, 0, 0, 2, 0, 0, 0, 2,
      0, 0, 0, 0, 0, 0, 0, 9, 7, 8] :: byte list"
  let ?C = "[0x4D, 0x69, 0x6C, 0x69, 0x6D, 0x67, 0x30, 0x30, 0, 0, 0, 1, 0, 0, 0, 2, 0, 0, 0, 2,
      0, 0, 0, 0, 0, 0, 0, 1, 7, 0, 0, 0, 0, 0, 0, 0, 6, 5, 4] :: byte list"
  have A: "length ?A < 2 ^ 32" "passes_magic ?A" "28 \<le> length ?A"
    "u32_at ?A 8 = 0 \<and> length ?A < 28 + u64_at ?A 20"
    by (simp_all add: layout_defs)
  have B: "length ?B < 2 ^ 32" "passes_magic ?B" "28 \<le> length ?B"
    "u32_at ?B 8 = 1 \<and> length ?B < 28 + u64_at ?B 20 \<and> 28 + u64_at ?B 20 < 2 ^ 32"
    by (simp_all add: layout_defs)
  have C: "length ?C < 2 ^ 32" "passes_magic ?C" "28 \<le> length ?C"
    "u32_at ?C 8 = 1 \<and> 36 + u64_at ?C 20 \<le> length ?C \<and>
       length ?C < 36 + u64_at ?C 20 + u64_at ?C (28 + u64_at ?C 20)"
    by (simp_all add: layout_defs)
  have fA: "u32_at ?A 12 = 2" "u32_at ?A 16 = 2" by (simp_all add: layout_defs)
  have fC: "u32_at ?C 12 = 2" "u32_at ?C 16 = 2" "u64_at ?C 20 = 1" "field ?C 28 1 = [7]"
    by (simp_all add: layout_defs)
  from truncated_payloads [OF A(1-3)] A(4) have 1: "parseMilimgContainer ?A =
       Inr \<lparr>version = 0, width = u32_at ?A 12, height = u32_at ?A 16,
                   colorPayload = drop 28 ?A, alphaPayload = None\<rparr>" by blast
  from truncated_payloads [OF B(1-3)] B(4) have 2: "parseMilimgContainer ?B = Inl RangeError"
    by blast
  from truncated_payloads [OF C(1-3)] C(4) have 3: "parseMilimgContainer ?C =
       Inr \<lparr>version = 1, width = u32_at ?C 12, height = u32_at ?C 16,
                   colorPayload = field ?C 28 (u64_at ?C 20),
                   alphaPayload = Some (drop (36 + u64_at ?C 20) ?C)\<rparr>" by blast
  show ?thesis
    unfolding 1 2 3 fA fC by simp
qed

text \<open>
  As the claim states it, a container that declares \<open>colorPayloadSize = 1000\<close> and
  holds 10 bytes would fail; the parser returns a header with a payload of those 10 bytes.
\<close>

theorem truncated_container_returns_header:
  "parseMilimgContainer
     [0x4D, 0x69, 0x6C, 0x69, 0x6D, 0x67, 0x30, 0x30, 0, 0, 0, 0, 0, 0, 0, 4, 0, 0, 0, 4,
      0, 0, 0, 0, 0, 0, 0x03, 0xE8, 1, 2, 3, 4, 5, 6, 7, 8, 9, 10] =
     Inr \<lparr>version = 0, width = 4, height = 4,
          colorPayload = [1, 2, 3, 4, 5, 6, 7, 8, 9, 10], alphaPayload = None\<rparr> \<and>
   u64_at [0x4D, 0x69, 0x6C, 0x69, 0x6D, 0x67, 0x30, 0x30, 0, 0, 0, 0, 0, 0, 0, 4, 0, 0, 0, 4,
      0, 0, 0, 0, 0, 0, 0x03, 0xE8, 1, 2, 3, 4, 5, 6, 7, 8, 9, 10] 20 = 1000"
  by (simp add: eval_defs layout_defs)

subsection \<open>C4: the magic check\<close>

text \<open>
  C4. A buffer whose first byte is \<open>0xCD\<close>, not \<open>0x4D\<close> (\<^verbatim>\<open>M\<close>), followed by
  \<^verbatim>\<open>ilimg00\<close>: its first 8 bytes are not the magic, yet the parser returns a header.
  The \<^verbatim>\<open>'ascii'\<close> decoding clears the high bit of every byte before the comparison.
\<close>

theorem high_bit_magic_accepted:
  "parseMilimgContainer
     [0xCD, 0x69, 0x6C, 0x69, 0x6D, 0x67, 0x30, 0x30, 0, 0, 0, 0, 0, 0, 0, 1, 0, 0, 0, 1,
      0, 0, 0, 0, 0, 0, 0, 0] =
     Inr \<lparr>version = 0, width = 1, height = 1, colorPayload = [], alphaPayload = None\<rparr> \<and>
   take 8 [0xCD, 0x69, 0x6C, 0x69, 0x6D, 0x67, 0x30, 0x30, 0, 0, 0, 0, 0, 0, 0, 1, 0, 0, 0, 1,
      0, 0, 0, 0, 0, 0, 0, 0 :: byte] \<noteq> magic_bytes"
  by (simp add: eval_defs layout_defs)

subsection \<open>C5: unsupported versions\<close>

text \<open>
  C5. A buffer that starts with the magic and has a version field (the u32 at offset 8)
  other than 0 and 1 fails with \<open>UnsupportedVersion\<close> carrying that value; and whenever
  the parser fails with \<open>UnsupportedVersion v\<close>, \<open>v\<close> is the version field and is
  neither 0 nor 1.
\<close>

theorem unsupported_version:
  "(take 8 buf = magic_bytes \<and> 12 \<le> length buf \<and> u32_at buf 8 \<noteq> 0 \<and> u32_at buf 8 \<noteq> 1 \<longrightarrow>
      parseMilimgContainer buf = Inl (UnsupportedVersion (u32_at buf 8))) \<and>
   (parseMilimgContainer buf = Inl (UnsupportedVersion v) \<longrightarrow>
      12 \<le> length buf \<and> v = u32_at buf 8 \<and> v \<noteq> 0 \<and> v \<noteq> 1)"
proof -
  have accept: "parseMilimgContainer buf = Inl (UnsupportedVersion (u32_at buf 8))"
    if a: "take 8 buf = magic_bytes \<and> 12 \<le> length buf \<and> u32_at buf 8 \<noteq> 0 \<and> u32_at buf 8 \<noteq> 1"
  proof -
    have m: "toString_ascii (subarray buf 0 8) = js_literal ''Milimg00''"
      using a magic_bytes_pass [of buf] by (simp add: passes_magic_def)
    have r: "readUInt32BE buf 8 = Inr (u32_at buf 8)"
      using a by (intro readUInt32BE_ok) simp_all
    show ?thesis
      using a by (simp add: parseMilimgContainer_def m r)
  qed
  have only: "12 \<le> length buf \<and> v = u32_at buf 8 \<and> v \<noteq> 0 \<and> v \<noteq> 1"
    if a: "parseMilimgContainer buf = Inl (UnsupportedVersion v)"
  proof -
    have r: "readUInt32BE buf 8 = Inr v" and v: "v \<noteq> 0" "v \<noteq> 1"
      using parse_UnsupportedVersion [OF a] by blast+
    have l: "12 \<le> length buf"
    proof (rule ccontr)
      assume "\<not> 12 \<le> length buf"
      then have "readUInt32BE buf 8 = Inl RangeError"
        by (intro readUInt32BE_fail) simp_all
      then show False using r by simp
    qed
    then have "readUInt32BE buf 8 = Inr (u32_at buf 8)"
      by (intro readUInt32BE_ok) simp_all
    then show ?thesis
      using r v l by simp
  qed
  show ?thesis using accept only by blast
qed

text \<open>Version field 2 yields \<open>UnsupportedVersion 2\<close>.\<close>

theorem unsupported_version_witness:
  "parseMilimgContainer
     [0x4D, 0x69, 0x6C, 0x69, 0x6D, 0x67, 0x30, 0x30, 0, 0, 0, 2, 0, 0, 0, 1, 0, 0, 0, 1,
      0, 0, 0, 0, 0, 0, 0, 0] = Inl (UnsupportedVersion 2) \<and>
   u32_at [0x4D, 0x69, 0x6C, 0x69, 0x6D, 0x67, 0x30, 0x30, 0, 0, 0, 2, 0, 0, 0, 1, 0, 0, 0, 1,
      0, 0, 0, 0, 0, 0, 0, 0] 8 = 2"
proof -
  let ?B = "[0x4D, 0x69, 0x6C, 0x69, 0x6D, 0x67, 0x30, 0x30, 0, 0, 0, 2, 0, 0, 0, 1, 0, 0, 0, 1,
      0, 0, 0, 0, 0, 0, 0, 0] :: byte list"
  have u: "u32_at ?B 8 = 2" by (simp add: layout_defs)
  have h: "take 8 ?B = magic_bytes \<and> 12 \<le> length ?B \<and> u32_at ?B 8 \<noteq> 0 \<and> u32_at ?B 8 \<noteq> 1"
    unfolding u by (simp add: layout_defs)
  from unsupported_version [of ?B 2] h
  have p: "parseMilimgContainer ?B = Inl (UnsupportedVersion (u32_at ?B 8))" by blast
  from unsupported_version [of ?B 2] p u
  have "2 = u32_at ?B 8" by simp
  then show ?thesis using p by simp
qed

subsection \<open>C6: planes of different sizes\<close>

text \<open>
  C6. \<^verbatim>\<open>combineRGBAFrames\<close> compares no dimensions. For any two planes (both canvas
  contexts given, the alpha plane opaque as decoded planes are) it does not fail: it
  returns a plane of the colour plane's size, and the alpha of each pixel is the alpha
  plane's red channel at the same column and row when the alpha plane has that pixel,
  and 0 where it has not: the alpha plane is cropped, or padded with transparent black.
\<close>

theorem combine_any_size:
  assumes "wf_frame c" and "wf_frame a" and "sound_store st"
    and "x < displayWidth c" and "y < displayHeight c"
    and "x < displayWidth a \<and> y < displayHeight a \<longrightarrow> pixel a x y 3 = 255"
  shows "\<exists>out. combineRGBAFrames st True True c a = Inr out \<and>
      displayWidth out = displayWidth c \<and> displayHeight out = displayHeight c \<and>
      length (rgba out) = 4 * displayWidth c * displayHeight c \<and>
      pixel out x y 3 =
        (if x < displayWidth a \<and> y < displayHeight a then pixel a x y 0 else 0)"
proof -
  have pos: "0 < displayWidth c" "0 < displayHeight c"
    using assms(1) by (simp_all add: wf_frame_def)
  have z: "unpremultiply st 0 0 = 0"
    using assms(3) by (simp add: sound_store_def)
  from combine_pixel [OF pos assms(4,5), where a = a and st = st] obtain out where
    r: "combineRGBAFrames st True True c a = Inr out"
    and d: "displayWidth out = displayWidth c" "displayHeight out = displayHeight c"
    and l: "length (rgba out) = 4 * displayWidth c * displayHeight c"
    and o3: "pixel out x y 3 = (if x < displayWidth a \<and> y < displayHeight a
      then read_back st (pixel a x y 3) (pixel a x y 0) else unpremultiply st 0 0)"
    by blast
  have "pixel out x y 3 =
      (if x < displayWidth a \<and> y < displayHeight a then pixel a x y 0 else 0)"
    using o3 assms(3,6) z by (simp add: read_back_opaque)
  then show ?thesis using r d l by (intro exI [of _ out]) simp
qed

text \<open>A 2\<times>1 colour plane with a 1\<times>1 alpha plane: the second pixel gets alpha 0.\<close>

theorem combine_any_size_witness:
  "combineRGBAFrames sample_store True True
     \<lparr>displayWidth = 2, displayHeight = 1, rgba = [10, 20, 30, 255, 40, 50, 60, 255]\<rparr>
     \<lparr>displayWidth = 1, displayHeight = 1, rgba = [128, 128, 128, 255]\<rparr> =
   Inr \<lparr>displayWidth = 2, displayHeight = 1, rgba = [10, 20, 30, 128, 0, 0, 0, 0]\<rparr> \<and>
   pixel \<lparr>displayWidth = 2, displayHeight = 1, rgba = [10, 20, 30, 128, 0, 0, 0, 0]\<rparr> 0 0 3 = 128 \<and>
   pixel \<lparr>displayWidth = 2, displayHeight = 1, rgba = [10, 20, 30, 128, 0, 0, 0, 0]\<rparr> 1 0 3 = 0"
proof -
  let ?C = "\<lparr>displayWidth = 2, displayHeight = 1, rgba = [10, 20, 30, 255, 40, 50, 60, 255]\<rparr>"
  let ?A = "\<lparr>displayWidth = 1, displayHeight = 1, rgba = [128, 128, 128, 255]\<rparr>"
  let ?O = "\<lparr>displayWidth = 2, displayHeight = 1, rgba = [10, 20, 30, 128, 0, 0, 0, 0]\<rparr>"
  have wf: "wf_frame ?C" "wf_frame ?A" by (simp_all add: wf_frame_def)
  note s = sample_store_sound
  have xy0: "0 < displayWidth ?C" "0 < displayHeight ?C"
    "0 < displayWidth ?A \<and> 0 < displayHeight ?A \<longrightarrow> pixel ?A 0 0 3 = 255"
    by (simp_all add: pixel_def)
  have xy1: "1 < displayWidth ?C" "0 < displayHeight ?C"
    "1 < displayWidth ?A \<and> 0 < displayHeight ?A \<longrightarrow> pixel ?A 1 0 3 = 255"
    by (simp_all add: pixel_def)
  from combine_any_size [OF wf s xy0] obtain out where
    o: "combineRGBAFrames sample_store True True ?C ?A = Inr out"
    and p: "pixel out 0 0 3 =
      (if 0 < displayWidth ?A \<and> 0 < displayHeight ?A then pixel ?A 0 0 0 else 0)"
    by blast
  from combine_any_size [OF wf s xy1] obtain out' where
    o': "combineRGBAFrames sample_store True True ?C ?A = Inr out'"
    and p': "pixel out' 1 0 3 =
      (if 1 < displayWidth ?A \<and> 0 < displayHeight ?A then pixel ?A 1 0 0 else 0)"
    by blast
  have e: "combineRGBAFrames sample_store True True ?C ?A = Inr ?O"
    by (simp add: canvas_defs)
  from o e have "out = ?O" by simp
  moreover from o' e have "out' = ?O" by simp
  moreover from p have "pixel out 0 0 3 = 128" by (simp add: pixel_def)
  moreover from p' have "pixel out' 1 0 3 = 0" by simp
  ultimately show ?thesis using e by simp
qed

text \<open>
  As the claim states it, a 4\<times>4 colour plane with a 2\<times>2 alpha plane would fail. The
  call returns a 4\<times>4 plane: alpha 128 in the top-left 2\<times>2 corner, transparent black
  elsewhere.
\<close>

theorem combine_sizes_differ:
  "combineRGBAFrames sample_store True True
     \<lparr>displayWidth = 4, displayHeight = 4, rgba =
          [10, 20, 30, 255, 10, 20, 30, 255, 10, 20, 30, 255, 10, 20, 30, 255,
           10, 20, 30, 255, 10, 20, 30, 255, 10, 20, 30, 255, 10, 20, 30, 255,
           10, 20, 30, 255, 10, 20, 30, 255, 10, 20, 30, 255, 10, 20, 30, 255,
           10, 20, 30, 255, 10, 20, 30, 255, 10, 20, 30, 255, 10, 20, 30, 255]\<rparr>
     \<lparr>displayWidth = 2, displayHeight = 2, rgba =
          [128, 128, 128, 255, 128, 128, 128, 255, 128, 128, 128, 255, 128, 128, 128, 255]\<rparr> =
   Inr \<lparr>displayWidth = 4, displayHeight = 4,
        rgba = [10, 20, 30, 128, 10, 20, 30, 128, 0, 0, 0, 0, 0, 0, 0, 0,
                10, 20, 30, 128, 10, 20, 30, 128, 0, 0, 0, 0, 0, 0, 0, 0,
                0, 0, 0, 0, 0, 0, 0, 0, 0, 0, 0, 0, 0, 0, 0, 0,
                0, 0, 0, 0, 0, 0, 0, 0, 0, 0, 0, 0, 0, 0, 0, 0]\<rparr>"
  by (simp add: canvas_defs)

subsection \<open>C7: no alpha plane\<close>

text \<open>
  C7. For a version-1 container whose colour payload decodes to a frame and whose alpha
  payload yields no frame, \<^verbatim>\<open>decodeMilimg\<close> raises no failure of its own and skips the
  compositing: its result is the result of \<^verbatim>\<open>frameToPNG\<close> on the colour frame alone.
\<close>

theorem alpha_fallback:
  assumes "parseMilimgContainer buf = Inr h" and "version h = 1"
    and "decodeAV1Frame pf (colorPayload h) = Inr (Some colorFrame)"
    and "alphaPayload h = Some alpha" and "decodeAV1Frame pf alpha = Inr None"
  shows "decodeMilimg pf buf = frameToPNG pf colorFrame"
  using assms by (simp add: decodeMilimg_def)

text \<open>Colour payload \<open>[1]\<close>, alpha payload \<open>[2]\<close>: the output is the colour frame's.\<close>

theorem alpha_fallback_witness:
  "decodeMilimg sample_platform
     [0x4D, 0x69, 0x6C, 0x69, 0x6D, 0x67, 0x30, 0x30, 0, 0, 0, 1, 0, 0, 0, 1, 0, 0, 0, 1,
      0, 0, 0, 0, 0, 0, 0, 1, 1, 0, 0, 0, 0, 0, 0, 0, 1, 2] = Inr [10, 20, 30, 255]"
proof -
  let ?B = "[0x4D, 0x69, 0x6C, 0x69, 0x6D, 0x67, 0x30, 0x30, 0, 0, 0, 1, 0, 0, 0, 1, 0, 0, 0, 1,
      0, 0, 0, 0, 0, 0, 0, 1, 1, 0, 0, 0, 0, 0, 0, 0, 1, 2] :: byte list"
  let ?H = "\<lparr>version = 1, width = 1, height = 1, colorPayload = [1], alphaPayload = Some [2]\<rparr>"
  let ?F = "\<lparr>displayWidth = 1, displayHeight = 1, rgba = [10, 20, 30, 255]\<rparr>"
  have p: "parseMilimgContainer ?B = Inr ?H" by (simp add: eval_defs)
  have v: "version ?H = 1" by simp
  have c: "decodeAV1Frame sample_platform (colorPayload ?H) = Inr (Some ?F)"
    by (simp add: decodeAV1Frame_def sample_platform_def sample_decoder_def)
  have a: "alphaPayload ?H = Some [2]" by simp
  have n: "decodeAV1Frame sample_platform [2] = Inr None"
    by (simp add: decodeAV1Frame_def sample_platform_def sample_decoder_def)
  have f: "frameToPNG sample_platform ?F = Inr [10, 20, 30, 255]"
    by (simp add: frameToPNG_def sample_platform_def sample_encoder_def drawImage_def
        OffscreenCanvas_def sample_store_def round_premultiply_def Let_def upt_rec)
  show ?thesis
    using alpha_fallback [OF p v c a n] f by simp
qed

subsection \<open>C8: no colour plane\<close>

text \<open>
  C8. For a container the parser accepts whose colour payload yields no frame, because
  it is empty (then the decoder is not even called) or because the decoder puts out
  none, \<^verbatim>\<open>decodeAV1Frame\<close> returns \<^verbatim>\<open>null\<close> and \<^verbatim>\<open>decodeMilimg\<close> fails with
  \<^verbatim>\<open>Failed to decode color frame\<close>, without an output.
\<close>

theorem no_color_plane:
  assumes "parseMilimgContainer buf = Inr h"
    and "colorPayload h = [] \<or> videoDecoder pf (colorPayload h) = Inr None"
  shows "decodeAV1Frame pf (colorPayload h) = Inr None \<and>
         decodeMilimg pf buf = Inl ColorFrameFailed"
proof -
  have "decodeAV1Frame pf (colorPayload h) = Inr None"
    using assms(2) by (auto simp add: decodeAV1Frame_def)
  then show ?thesis using assms(1) by (simp add: decodeMilimg_def)
qed

text \<open>A version-0 container with a colour payload of zero bytes.\<close>

theorem no_color_plane_witness:
  "decodeMilimg sample_platform
     [0x4D, 0x69, 0x6C, 0x69, 0x6D, 0x67, 0x30, 0x30, 0, 0, 0, 0, 0, 0, 0, 1, 0, 0, 0, 1,
      0, 0, 0, 0, 0, 0, 0, 0] = Inl ColorFrameFailed"
proof -
  let ?B = "[0x4D, 0x69, 0x6C, 0x69, 0x6D, 0x67, 0x30, 0x30, 0, 0, 0, 0, 0, 0, 0, 1, 0, 0, 0, 1,
      0, 0, 0, 0, 0, 0, 0, 0] :: byte list"
  let ?H = "\<lparr>version = 0, width = 1, height = 1, colorPayload = [], alphaPayload = None\<rparr>"
  have p: "parseMilimgContainer ?B = Inr ?H" by (simp add: eval_defs)
  have e: "colorPayload ?H = [] \<or> videoDecoder sample_platform (colorPayload ?H) = Inr None"
    by simp
  from no_color_plane [OF p e] show ?thesis by blast
qed

subsection \<open>C9: bytes after the last payload\<close>

text \<open>
  C9. For every buffer \<open>B\<close> the parser accepts that holds all the payload bytes its size
  fields declare, and every \<open>T\<close> (with \<open>B @ T\<close> below 4 GiB), the parser accepts
  \<open>B @ T\<close> and returns the same header: version, width, height and both payloads.
\<close>

theorem trailing_bytes_ignored:
  assumes "length (B @ T) < 2 ^ 32" and "parseMilimgContainer B = Inr h"
    and "declared_end B \<le> length B"
  shows "parseMilimgContainer (B @ T) = Inr h"
proof -
  have lB: "length B < 2 ^ 32" using assms(1) by simp
  note f = parse_Inr [OF lB assms(2)]
  then have m: "passes_magic B" and l: "28 \<le> length B"
    and fv: "version h = u32_at B 8" and v01: "version h = 0 \<or> version h = 1" by blast+
  have m': "passes_magic (B @ T)" using m by (rule passes_magic_append)
  have l': "28 \<le> length (B @ T)" using l by simp
  have u8: "u32_at (B @ T) 8 = u32_at B 8" and u12: "u32_at (B @ T) 12 = u32_at B 12"
    and u16: "u32_at (B @ T) 16 = u32_at B 16" and u20: "u64_at (B @ T) 20 = u64_at B 20"
    using l by (simp_all add: u32_at_def u64_at_def field_append)
  from v01 show ?thesis
  proof
    assume v: "version h = 0"
    then have v0: "u32_at B 8 = 0" using fv by simp
    then have e: "28 + u64_at B 20 \<le> length B"
      using assms(3) by (simp add: declared_end_def)
    have v0': "u32_at (B @ T) 8 = 0" using v0 u8 by simp
    have "parseMilimgContainer B = parseMilimgContainer (B @ T)"
      unfolding parse_v0 [OF lB m l v0] parse_v0 [OF assms(1) m' l' v0']
      using e by (simp add: u12 u16 u20 field_append)
    then show ?thesis using assms(2) by simp
  next
    assume v: "version h = 1"
    then have v1: "u32_at B 8 = 1" using fv by simp
    then have e: "36 + u64_at B 20 + u64_at B (28 + u64_at B 20) \<le> length B"
      using assms(3) by (simp add: declared_end_def)
    then have e1: "36 + u64_at B 20 \<le> length B" by simp
    have e1': "36 + u64_at (B @ T) 20 \<le> length (B @ T)" using e1 u20 by simp
    have v1': "u32_at (B @ T) 8 = 1" using v1 u8 by simp
    have ua: "u64_at (B @ T) (28 + u64_at B 20) = u64_at B (28 + u64_at B 20)"
      using e1 by (simp add: u64_at_def field_append)
    have "parseMilimgContainer B = parseMilimgContainer (B @ T)"
      unfolding parse_v1 [OF lB m v1 e1] parse_v1 [OF assms(1) m' v1' e1']
      using e by (simp add: u12 u16 u20 ua field_append)
    then show ?thesis using assms(2) by simp
  qed
qed

text \<open>A complete version-1 container, followed by two more bytes.\<close>

theorem trailing_bytes_ignored_witness:
  "parseMilimgContainer
     ([0x4D, 0x69, 0x6C, 0x69, 0x6D, 0x67, 0x30, 0x30, 0, 0, 0, 1, 0, 0, 0, 2, 0, 0, 0, 3,
       0, 0, 0, 0, 0, 0, 0, 2, 0xAA, 0xBB, 0, 0, 0, 0, 0, 0, 0, 1, 0xCC] @ [0xDD, 0xEE]) =
     Inr \<lparr>version = 1, width = 2, height = 3, colorPayload = [0xAA, 0xBB],
          alphaPayload = Some [0xCC]\<rparr>"
proof -
  let ?B = "[0x4D, 0x69, 0x6C, 0x69, 0x6D, 0x67, 0x30, 0x30, 0, 0, 0, 1, 0, 0, 0, 2, 0, 0, 0, 3,
       0, 0, 0, 0, 0, 0, 0, 2, 0xAA, 0xBB, 0, 0, 0, 0, 0, 0, 0, 1, 0xCC] :: byte list"
  have l: "length (?B @ [0xDD, 0xEE]) < 2 ^ 32" by simp
  have p: "parseMilimgContainer ?B = Inr \<lparr>version = 1, width = 2, height = 3,
      colorPayload = [0xAA, 0xBB], alphaPayload = Some [0xCC]\<rparr>"
    by (simp add: eval_defs)
  have d: "declared_end ?B \<le> length ?B" by (simp add: layout_defs)
  show ?thesis by (rule trailing_bytes_ignored [OF l p d])
qed

text \<open>
  As the claim states it, this would hold for every accepted buffer. A version-0
  container that declares 4 payload bytes and holds 2 is accepted; with one more byte
  appended, that byte is part of the colour payload.
\<close>

theorem trailing_bytes_change_payload:
  "parseMilimgContainer
     [0x4D, 0x69, 0x6C, 0x69, 0x6D, 0x67, 0x30, 0x30, 0, 0, 0, 0, 0, 0, 0, 1, 0, 0, 0, 1,
      0, 0, 0, 0, 0, 0, 0, 4, 1, 2] =
     Inr \<lparr>version = 0, width = 1, height = 1, colorPayload = [1, 2], alphaPayload = None\<rparr> \<and>
   parseMilimgContainer
     ([0x4D, 0x69, 0x6C, 0x69, 0x6D, 0x67, 0x30, 0x30, 0, 0, 0, 0, 0, 0, 0, 1, 0, 0, 0, 1,
       0, 0, 0, 0, 0, 0, 0, 4, 1, 2] @ [9]) =
     Inr \<lparr>version = 0, width = 1, height = 1, colorPayload = [1, 2, 9], alphaPayload = None\<rparr>"
  by (simp add: eval_defs)

subsection \<open>C10: the size of the composited plane\<close>

text \<open>
  C10. Whenever \<^verbatim>\<open>combineRGBAFrames\<close> returns a plane, its width and height are the
  colour frame's display width and height, whatever the alpha frame's are.
\<close>

theorem combine_output_size:
  assumes "combineRGBAFrames st ctx alphaCtx c a = Inr out"
  shows "displayWidth out = displayWidth c \<and> displayHeight out = displayHeight c"
  using assms
  by (auto simp add: combineRGBAFrames_def Let_def getImageData_def putImageData_def
      VideoFrame_of_canvas_def drawImage_def OffscreenCanvas_def split: if_splits)

text \<open>A 2\<times>1 colour frame with a 3\<times>2 alpha frame gives a 2\<times>1 plane.\<close>

theorem combine_output_size_witness:
  "displayWidth \<lparr>displayWidth = 2, displayHeight = 1, rgba = [10, 20, 30, 128, 40, 50, 60, 128] :: byte list\<rparr> = 2 \<and>
   combineRGBAFrames sample_store True True
     \<lparr>displayWidth = 2, displayHeight = 1, rgba = [10, 20, 30, 255, 40, 50, 60, 255]\<rparr>
     \<lparr>displayWidth = 3, displayHeight = 2, rgba =
          [128, 128, 128, 255, 128, 128, 128, 255, 128, 128, 128, 255, 128, 128, 128, 255,
           128, 128, 128, 255, 128, 128, 128, 255]\<rparr> =
   Inr \<lparr>displayWidth = 2, displayHeight = 1, rgba = [10, 20, 30, 128, 40, 50, 60, 128]\<rparr>"
proof -
  let ?C = "\<lparr>displayWidth = 2, displayHeight = 1, rgba = [10, 20, 30, 255, 40, 50, 60, 255]\<rparr>"
  let ?A = "\<lparr>displayWidth = 3, displayHeight = 2, rgba =
          [128, 128, 128, 255, 128, 128, 128, 255, 128, 128, 128, 255, 128, 128, 128, 255,
           128, 128, 128, 255, 128, 128, 128, 255]\<rparr>"
  let ?O = "\<lparr>displayWidth = 2, displayHeight = 1, rgba = [10, 20, 30, 128, 40, 50, 60, 128]\<rparr>"
  have e: "combineRGBAFrames sample_store True True ?C ?A = Inr ?O"
    by (simp add: canvas_defs)
  from combine_output_size [OF e] have "displayWidth ?O = displayWidth ?C" by blast
  then show ?thesis using e by simp
qed

end
